theory Spec2Isabelle
  imports Main
begin

section \<open>Raw memory, element operations and exceptions\<close>

text \<open>
  The container of \<^verbatim>\<open>vector.cpp\<close> keeps its elements in raw storage obtained from
  \<^verbatim>\<open>operator new\<close> and decides itself which slots hold a live object. The model keeps
  that separation. The free store is a list of blocks; a block is a flag (still allocated,
  or given back) and its slots, \<open>None\<close> for a slot that holds no object and \<open>Some v\<close> for a
  live object of value \<open>v\<close>. A freed block keeps its slots, so that an object that was never
  destroyed stays visible. A pointer is null or a block with an offset counted in elements.
  Sizes are natural numbers: the allocation function either throws or returns a block of the
  number of elements asked for, so no buffer is large enough for \<^verbatim>\<open>size_ * 2\<close> or the byte
  count of a request to wrap around.
\<close>

datatype ptr = Null | Ptr nat nat

type_synonym 'a block = "bool \<times> 'a option list"

text \<open>
  The operations that may throw: the allocation function and the special member functions of
  the element type \<open>T\<close>. \<open>Construct\<close> is any other constructor of \<open>T\<close>.
\<close>

datatype op = Alloc | Construct | Copy_ctor | Move_ctor | Copy_assign | Move_assign | Value_init

text \<open>
  An exception carries the operation that threw it. A failed \<^verbatim>\<open>assert\<close> and an exception
  leaving a \<^verbatim>\<open>noexcept\<close> function end the program; \<open>Undefined\<close> is an access the language gives
  no meaning to (a null or dangling pointer, an object that is not alive).
\<close>

datatype error = Thrown op | Assert_failed | Terminated | Undefined

text \<open>
  What the code knows of \<open>T\<close>: the two traits the \<^verbatim>\<open>if constexpr\<close> branches test, whether
  \<open>T\<close> is trivially copyable (the library then moves a range of objects with one
  \<^verbatim>\<open>memmove\<close>), the value a moved-from object is left with, the value of \<^verbatim>\<open>T()\<close>, and
  which operations throw. \<open>throws T f k\<close> says whether operation \<open>f\<close> throws when it is
  the \<open>k\<close>-th fallible step of the run; the memory carries the count of the steps taken so
  far.
\<close>

record 'a traits =
  nothrow_move_constructible :: bool
  copy_constructible :: bool
  trivially_copyable :: bool
  throws :: "op \<Rightarrow> nat \<Rightarrow> bool"
  moved_from :: "'a \<Rightarrow> 'a"
  value_init :: 'a

record 'a mem =
  heap :: "'a block list"
  tick :: nat

type_synonym ('a, 'r) comp = "'a mem \<Rightarrow> (error + 'r) \<times> 'a mem"

definition return :: "'r \<Rightarrow> ('a, 'r) comp" where
  "return x = (\<lambda>m. (Inr x, m))"

definition throw :: "error \<Rightarrow> ('a, 'r) comp" where
  "throw e = (\<lambda>m. (Inl e, m))"

definition then_do :: "('a, 'r) comp \<Rightarrow> ('r \<Rightarrow> ('a, 's) comp) \<Rightarrow> ('a, 's) comp" where
  "then_do c f = (\<lambda>m. case c m of (Inl e, m') \<Rightarrow> (Inl e, m') | (Inr x, m') \<Rightarrow> f x m')"

text \<open>\<^verbatim>\<open>try { c } catch (...) { h }\<close>: only an exception reaches the handler.\<close>

definition try_catch :: "('a, 'r) comp \<Rightarrow> (error \<Rightarrow> ('a, 'r) comp) \<Rightarrow> ('a, 'r) comp" where
  "try_catch c h = (\<lambda>m. case c m of
       (Inl (Thrown f), m') \<Rightarrow> h (Thrown f) m'
     | (Inl e, m') \<Rightarrow> (Inl e, m')
     | (Inr x, m') \<Rightarrow> (Inr x, m'))"

text \<open>An exception that leaves a \<^verbatim>\<open>noexcept\<close> function calls \<^verbatim>\<open>std::terminate\<close>.\<close>

definition noexcept :: "('a, 'r) comp \<Rightarrow> ('a, 'r) comp" where
  "noexcept c = try_catch c (\<lambda>e. throw Terminated)"

text \<open>
  A block with a local object \<open>l\<close> that has a destructor. The body returns its result and the
  value the local has at the end of the block. The destructor runs on that value when the
  block is left normally, and on the initial value when an exception unwinds the block (in
  the code below the local only changes in the last statement of its block, a swap that
  cannot throw).
\<close>

definition scoped :: "'l \<Rightarrow> ('l \<Rightarrow> ('a, unit) comp) \<Rightarrow> ('a, 'r \<times> 'l) comp \<Rightarrow> ('a, 'r) comp" where
  "scoped l dtor body = (\<lambda>m. case body m of
       (Inr (r, l'), m') \<Rightarrow> then_do (dtor l') (\<lambda>_. return r) m'
     | (Inl (Thrown f), m') \<Rightarrow> then_do (dtor l) (\<lambda>_. throw (Thrown f)) m'
     | (Inl e, m') \<Rightarrow> (Inl e, m'))"

subsection \<open>Pointers\<close>

fun ptr_add :: "ptr \<Rightarrow> nat \<Rightarrow> ptr" where
  "ptr_add Null n = Null"
| "ptr_add (Ptr b i) n = Ptr b (i + n)"

fun ptr_sub :: "ptr \<Rightarrow> nat \<Rightarrow> ptr" where
  "ptr_sub Null n = Null"
| "ptr_sub (Ptr b i) n = Ptr b (i - n)"

fun ptr_diff :: "ptr \<Rightarrow> ptr \<Rightarrow> nat" where
  "ptr_diff (Ptr b i) (Ptr c j) = i - j"
| "ptr_diff p q = 0"

fun ptr_le :: "ptr \<Rightarrow> ptr \<Rightarrow> bool" where
  "ptr_le Null Null = True"
| "ptr_le (Ptr b i) (Ptr c j) = (b = c \<and> i \<le> j)"
| "ptr_le p q = False"

fun ptr_less :: "ptr \<Rightarrow> ptr \<Rightarrow> bool" where
  "ptr_less (Ptr b i) (Ptr c j) = (b = c \<and> i < j)"
| "ptr_less p q = False"

subsection \<open>Slots\<close>

text \<open>
  \<open>slot m p\<close> is \<open>None\<close> when \<open>p\<close> does not address a slot of an allocated block, and
  otherwise the content of the slot.
\<close>

definition slot :: "'a mem \<Rightarrow> ptr \<Rightarrow> 'a option option" where
  "slot m p = (case p of
       Null \<Rightarrow> None
     | Ptr b i \<Rightarrow>
         if b < length (heap m) \<and> fst (heap m ! b) \<and> i < length (snd (heap m ! b))
         then Some (snd (heap m ! b) ! i) else None)"

definition put :: "ptr \<Rightarrow> 'a option \<Rightarrow> 'a mem \<Rightarrow> 'a mem" where
  "put p s m = (case p of
       Null \<Rightarrow> m
     | Ptr b i \<Rightarrow> m\<lparr>heap := (heap m)[b := (fst (heap m ! b), (snd (heap m ! b))[i := s])]\<rparr>)"

definition may_throw :: "'a traits \<Rightarrow> op \<Rightarrow> ('a, unit) comp" where
  "may_throw T f = (\<lambda>m.
     if throws T f (tick m) then (Inl (Thrown f), m\<lparr>tick := Suc (tick m)\<rparr>)
     else (Inr (), m\<lparr>tick := Suc (tick m)\<rparr>))"

text \<open>Reading an object, starting the lifetime of one, assigning to one, ending its lifetime.\<close>

definition load :: "ptr \<Rightarrow> ('a, 'a) comp" where
  "load p = (\<lambda>m. case slot m p of Some (Some v) \<Rightarrow> (Inr v, m) | _ \<Rightarrow> (Inl Undefined, m))"

definition construct_raw :: "ptr \<Rightarrow> 'a \<Rightarrow> ('a, unit) comp" where
  "construct_raw p v = (\<lambda>m. case slot m p of
       None \<Rightarrow> (Inl Undefined, m)
     | Some _ \<Rightarrow> (Inr (), put p (Some v) m))"

definition assign :: "ptr \<Rightarrow> 'a \<Rightarrow> ('a, unit) comp" where
  "assign p v = (\<lambda>m. case slot m p of
       Some (Some _) \<Rightarrow> (Inr (), put p (Some v) m)
     | _ \<Rightarrow> (Inl Undefined, m))"

definition destroy_at :: "ptr \<Rightarrow> ('a, unit) comp" where
  "destroy_at p = (\<lambda>m. case slot m p of
       Some (Some _) \<Rightarrow> (Inr (), put p None m)
     | _ \<Rightarrow> (Inl Undefined, m))"

subsection \<open>The operations of the element type\<close>

definition T_value_construct :: "'a traits \<Rightarrow> ptr \<Rightarrow> ('a, unit) comp" where
  "T_value_construct T p = then_do (may_throw T Value_init) (\<lambda>_. construct_raw p (value_init T))"

definition T_copy_construct :: "'a traits \<Rightarrow> ptr \<Rightarrow> ptr \<Rightarrow> ('a, unit) comp" where
  "T_copy_construct T dst src =
     then_do (load src) (\<lambda>v.
     then_do (may_throw T Copy_ctor) (\<lambda>_.
     construct_raw dst v))"

definition T_move_construct :: "'a traits \<Rightarrow> ptr \<Rightarrow> ptr \<Rightarrow> ('a, unit) comp" where
  "T_move_construct T dst src =
     then_do (load src) (\<lambda>v.
     then_do (may_throw T Move_ctor) (\<lambda>_.
     then_do (construct_raw dst v) (\<lambda>_.
     assign src (moved_from T v))))"

text \<open>
  \<^verbatim>\<open>new (p) T(std::forward<Args>(args)...)\<close>. The code takes the arguments by reference
  and forwards them, and nothing keeps a caller from passing an element of the vector
  itself, as in \<^verbatim>\<open>v.Insert(v.begin(), v[1])\<close>. The arguments are of three kinds:
  arguments that refer to no object of the memory, which select a constructor \<open>f\<close> and fix
  the value \<open>v\<close> of the new object; an lvalue of type \<open>T\<close> at an address, which the
  copy constructor reads when the construction takes place; an rvalue of type \<open>T\<close> at an
  address, which the move constructor reads and leaves moved from.
\<close>

datatype 'a args = Args_outside op 'a | Lvalue_at ptr | Rvalue_at ptr

definition T_construct :: "'a traits \<Rightarrow> ptr \<Rightarrow> 'a args \<Rightarrow> ('a, unit) comp" where
  "T_construct T p args = (case args of
       Args_outside f v \<Rightarrow> then_do (may_throw T f) (\<lambda>_. construct_raw p v)
     | Lvalue_at q \<Rightarrow> T_copy_construct T p q
     | Rvalue_at q \<Rightarrow> T_move_construct T p q)"

definition T_copy_assign :: "'a traits \<Rightarrow> ptr \<Rightarrow> ptr \<Rightarrow> ('a, unit) comp" where
  "T_copy_assign T dst src =
     then_do (load src) (\<lambda>v.
     then_do (may_throw T Copy_assign) (\<lambda>_.
     assign dst v))"

definition T_move_assign :: "'a traits \<Rightarrow> ptr \<Rightarrow> ptr \<Rightarrow> ('a, unit) comp" where
  "T_move_assign T dst src =
     then_do (load src) (\<lambda>v.
     then_do (may_throw T Move_assign) (\<lambda>_.
     then_do (assign dst v) (\<lambda>_.
     assign src (moved_from T v))))"

subsection \<open>The algorithms of the standard library the code calls\<close>

text \<open>
  Each follows the loop the C++ standard gives for it. The \<^verbatim>\<open>uninitialized_\<close> algorithms
  destroy what they have constructed when a construction throws.
\<close>

primrec destroy_n :: "ptr \<Rightarrow> nat \<Rightarrow> ('a, unit) comp" where
  "destroy_n first 0 = return ()"
| "destroy_n first (Suc n) = then_do (destroy_at first) (\<lambda>_. destroy_n (ptr_add first 1) n)"

primrec uninitialized_value_loop :: "'a traits \<Rightarrow> ptr \<Rightarrow> nat \<Rightarrow> nat \<Rightarrow> ('a, unit) comp" where
  "uninitialized_value_loop T first i 0 = return ()"
| "uninitialized_value_loop T first i (Suc n) =
     then_do (try_catch (T_value_construct T (ptr_add first i))
                (\<lambda>e. then_do (destroy_n first i) (\<lambda>_. throw e))) (\<lambda>_.
     uninitialized_value_loop T first (Suc i) n)"

definition uninitialized_value_construct_n :: "'a traits \<Rightarrow> ptr \<Rightarrow> nat \<Rightarrow> ('a, unit) comp" where
  "uninitialized_value_construct_n T first n = uninitialized_value_loop T first 0 n"

primrec uninitialized_copy_loop :: "'a traits \<Rightarrow> ptr \<Rightarrow> ptr \<Rightarrow> nat \<Rightarrow> nat \<Rightarrow> ('a, unit) comp" where
  "uninitialized_copy_loop T first d_first i 0 = return ()"
| "uninitialized_copy_loop T first d_first i (Suc n) =
     then_do (try_catch (T_copy_construct T (ptr_add d_first i) (ptr_add first i))
                (\<lambda>e. then_do (destroy_n d_first i) (\<lambda>_. throw e))) (\<lambda>_.
     uninitialized_copy_loop T first d_first (Suc i) n)"

definition uninitialized_copy_n :: "'a traits \<Rightarrow> ptr \<Rightarrow> nat \<Rightarrow> ptr \<Rightarrow> ('a, unit) comp" where
  "uninitialized_copy_n T first n d_first = uninitialized_copy_loop T first d_first 0 n"

primrec uninitialized_move_loop :: "'a traits \<Rightarrow> ptr \<Rightarrow> ptr \<Rightarrow> nat \<Rightarrow> nat \<Rightarrow> ('a, unit) comp" where
  "uninitialized_move_loop T first d_first i 0 = return ()"
| "uninitialized_move_loop T first d_first i (Suc n) =
     then_do (try_catch (T_move_construct T (ptr_add d_first i) (ptr_add first i))
                (\<lambda>e. then_do (destroy_n d_first i) (\<lambda>_. throw e))) (\<lambda>_.
     uninitialized_move_loop T first d_first (Suc i) n)"

definition uninitialized_move_n :: "'a traits \<Rightarrow> ptr \<Rightarrow> nat \<Rightarrow> ptr \<Rightarrow> ('a, unit) comp" where
  "uninitialized_move_n T first n d_first = uninitialized_move_loop T first d_first 0 n"

text \<open>\<^verbatim>\<open>std::copy(first, last, d_first)\<close>: copy assignment, front to back.\<close>

primrec copy_loop :: "'a traits \<Rightarrow> ptr \<Rightarrow> ptr \<Rightarrow> nat \<Rightarrow> ('a, unit) comp" where
  "copy_loop T first d_first 0 = return ()"
| "copy_loop T first d_first (Suc n) =
     then_do (T_copy_assign T d_first first) (\<lambda>_.
     copy_loop T (ptr_add first 1) (ptr_add d_first 1) n)"

definition std_copy :: "'a traits \<Rightarrow> ptr \<Rightarrow> ptr \<Rightarrow> ptr \<Rightarrow> ('a, unit) comp" where
  "std_copy T first lst d_first = copy_loop T first d_first (ptr_diff lst first)"

text \<open>
  \<^verbatim>\<open>std::move_backward(first, last, d_last)\<close>: the loop
  \<^verbatim>\<open>while (first != last) *(--d_last) = std::move(*(--last));\<close>
  which moves the last element first. The standard leaves the call undefined when \<open>d_last\<close>
  lies in \<open>(first, last]\<close>; the model runs the loop there too. For a trivially copyable
  \<open>T\<close> the library does not run the loop: it moves the range with one \<^verbatim>\<open>memmove\<close> to
  \<open>d_last - (last - first)\<close>, which reads the whole range before it writes it.
\<close>

primrec move_backward_loop :: "'a traits \<Rightarrow> ptr \<Rightarrow> ptr \<Rightarrow> nat \<Rightarrow> ('a, unit) comp" where
  "move_backward_loop T lst d_last 0 = return ()"
| "move_backward_loop T lst d_last (Suc n) =
     then_do (T_move_assign T (ptr_sub d_last 1) (ptr_sub lst 1)) (\<lambda>_.
     move_backward_loop T (ptr_sub lst 1) (ptr_sub d_last 1) n)"

primrec load_n :: "ptr \<Rightarrow> nat \<Rightarrow> ('a, 'a list) comp" where
  "load_n first 0 = return []"
| "load_n first (Suc n) =
     then_do (load first) (\<lambda>v.
     then_do (load_n (ptr_add first 1) n) (\<lambda>vs. return (v # vs)))"

primrec store_n :: "ptr \<Rightarrow> 'a list \<Rightarrow> ('a, unit) comp" where
  "store_n d_first [] = return ()"
| "store_n d_first (v # vs) = then_do (assign d_first v) (\<lambda>_. store_n (ptr_add d_first 1) vs)"

definition memmove :: "ptr \<Rightarrow> ptr \<Rightarrow> nat \<Rightarrow> ('a, unit) comp" where
  "memmove d_first first n = then_do (load_n first n) (\<lambda>vs. store_n d_first vs)"

definition std_move_backward :: "'a traits \<Rightarrow> ptr \<Rightarrow> ptr \<Rightarrow> ptr \<Rightarrow> ('a, unit) comp" where
  "std_move_backward T first lst d_last =
     (if trivially_copyable T
      then memmove (ptr_sub d_last (ptr_diff lst first)) first (ptr_diff lst first)
      else move_backward_loop T lst d_last (ptr_diff lst first))"

text \<open>\<^verbatim>\<open>operator new\<close> for \<open>n\<close> elements and \<^verbatim>\<open>operator delete\<close>.\<close>

definition operator_new :: "'a traits \<Rightarrow> nat \<Rightarrow> ('a, ptr) comp" where
  "operator_new T n =
     then_do (may_throw T Alloc) (\<lambda>_ m.
       (Inr (Ptr (length (heap m)) 0), m\<lparr>heap := heap m @ [(True, replicate n None)]\<rparr>))"

definition operator_delete :: "ptr \<Rightarrow> ('a, unit) comp" where
  "operator_delete p = (\<lambda>m. case p of
       Null \<Rightarrow> (Inr (), m)
     | Ptr b i \<Rightarrow>
         if i = 0 \<and> b < length (heap m) \<and> fst (heap m ! b)
         then (Inr (), m\<lparr>heap := (heap m)[b := (False, snd (heap m ! b))]\<rparr>)
         else (Inl Undefined, m))"

section \<open>RawMemory\<close>

text \<open>
  The members \<^verbatim>\<open>buffer_\<close> and \<^verbatim>\<open>capacity_\<close> (a name of a constant cannot end in an
  underscore here, so the members are written with the prefix \<open>m_\<close>).
\<close>

record RawMemory =
  m_buffer :: ptr
  m_capacity :: nat

definition RawMemory_default :: RawMemory where
  "RawMemory_default = \<lparr>m_buffer = Null, m_capacity = 0\<rparr>"

text \<open>
  \<^verbatim>\<open>Allocate(n)\<close> asks \<^verbatim>\<open>operator new\<close> for \<^verbatim>\<open>n * sizeof(T)\<close> bytes, a product computed
  in \<^verbatim>\<open>size_t\<close>. The model takes the product not to wrap around, and the block to have
  \<open>n\<close> slots. That is so for every request \<open>EmplaceBack\<close> and \<open>Emplace\<close> make from a
  vector whose buffer exists; a count so large that the product wraps, passed to
  \<open>Reserve\<close>, \<open>Resize\<close> or the sized constructor, is outside the model.
\<close>

definition Allocate :: "'a traits \<Rightarrow> nat \<Rightarrow> ('a, ptr) comp" where
  "Allocate T n = (if n \<noteq> 0 then operator_new T n else return Null)"

definition Deallocate :: "ptr \<Rightarrow> ('a, unit) comp" where
  "Deallocate buf = operator_delete buf"

definition RawMemory_ctor :: "'a traits \<Rightarrow> nat \<Rightarrow> ('a, RawMemory) comp" where
  "RawMemory_ctor T capacity =
     then_do (Allocate T capacity) (\<lambda>b. return \<lparr>m_buffer = b, m_capacity = capacity\<rparr>)"

definition RawMemory_dtor :: "RawMemory \<Rightarrow> ('a, unit) comp" where
  "RawMemory_dtor this = Deallocate (m_buffer this)"


definition RawMemory_Swap :: "RawMemory \<Rightarrow> RawMemory \<Rightarrow> RawMemory \<times> RawMemory" where
  "RawMemory_Swap this other =
     (this\<lparr>m_buffer := m_buffer other, m_capacity := m_capacity other\<rparr>,
      other\<lparr>m_buffer := m_buffer this, m_capacity := m_capacity this\<rparr>)"





definition GetAddress :: "RawMemory \<Rightarrow> ptr" where
  "GetAddress this = m_buffer this"

definition RawMemory_Capacity :: "RawMemory \<Rightarrow> nat" where
  "RawMemory_Capacity this = m_capacity this"

text \<open>\<^verbatim>\<open>operator+\<close> and \<^verbatim>\<open>operator[]\<close>, the latter returning the address of the element.\<close>

definition RawMemory_plus :: "RawMemory \<Rightarrow> nat \<Rightarrow> ('a, ptr) comp" where
  "RawMemory_plus this offset =
     (if offset \<le> m_capacity this then return (ptr_add (m_buffer this) offset)
      else throw Assert_failed)"

definition RawMemory_index :: "RawMemory \<Rightarrow> nat \<Rightarrow> ('a, ptr) comp" where
  "RawMemory_index this index =
     (if index < m_capacity this then return (ptr_add (m_buffer this) index)
      else throw Assert_failed)"


section \<open>Vector\<close>

text \<open>The members \<^verbatim>\<open>data_\<close> and \<^verbatim>\<open>size_\<close>.\<close>

record Vector =
  m_data :: RawMemory
  m_size :: nat

definition Vector_default :: Vector where
  "Vector_default = \<lparr>m_data = RawMemory_default, m_size = 0\<rparr>"

definition Size :: "Vector \<Rightarrow> nat" where
  "Size this = m_size this"

definition Capacity :: "Vector \<Rightarrow> nat" where
  "Capacity this = RawMemory_Capacity (m_data this)"

definition Vector_begin :: "Vector \<Rightarrow> ptr" where
  "Vector_begin this = GetAddress (m_data this)"

definition Vector_end :: "Vector \<Rightarrow> ptr" where
  "Vector_end this = ptr_add (GetAddress (m_data this)) (m_size this)"

text \<open>\<^verbatim>\<open>operator[]\<close>, returning the address of the element.\<close>

definition Vector_index :: "Vector \<Rightarrow> nat \<Rightarrow> ('a, ptr) comp" where
  "Vector_index this index =
     (if index < m_size this then RawMemory_index (m_data this) index else throw Assert_failed)"

text \<open>
  The constructors return the new object. When the body of a constructor throws, the member
  \<^verbatim>\<open>data_\<close>, already constructed, is destroyed.
\<close>

definition Vector_sized :: "'a traits \<Rightarrow> nat \<Rightarrow> ('a, Vector) comp" where
  "Vector_sized T n =
     then_do (RawMemory_ctor T n) (\<lambda>d.
     then_do (try_catch (uninitialized_value_construct_n T (GetAddress d) n)
                (\<lambda>e. then_do (RawMemory_dtor d) (\<lambda>_. throw e))) (\<lambda>_.
     return \<lparr>m_data = d, m_size = n\<rparr>))"

definition Vector_copy :: "'a traits \<Rightarrow> Vector \<Rightarrow> ('a, Vector) comp" where
  "Vector_copy T other =
     then_do (RawMemory_ctor T (m_size other)) (\<lambda>d.
     then_do (try_catch (uninitialized_copy_n T (GetAddress (m_data other)) (m_size other) (GetAddress d))
                (\<lambda>e. then_do (RawMemory_dtor d) (\<lambda>_. throw e))) (\<lambda>_.
     return \<lparr>m_data = d, m_size = m_size other\<rparr>))"

definition Vector_Swap :: "Vector \<Rightarrow> Vector \<Rightarrow> Vector \<times> Vector" where
  "Vector_Swap this other =
     (let (d, od) = RawMemory_Swap (m_data this) (m_data other)
      in (this\<lparr>m_data := d, m_size := m_size other\<rparr>,
          other\<lparr>m_data := od, m_size := m_size this\<rparr>))"

text \<open>The move constructor: the members get their default values, then \<^verbatim>\<open>Swap(other)\<close>.\<close>

definition Vector_move :: "Vector \<Rightarrow> Vector \<times> Vector" where
  "Vector_move other = Vector_Swap Vector_default other"

definition Vector_dtor :: "Vector \<Rightarrow> ('a, unit) comp" where
  "Vector_dtor this =
     then_do (destroy_n (GetAddress (m_data this)) (m_size this)) (\<lambda>_.
     RawMemory_dtor (m_data this))"

text \<open>
  The other member functions take \<^verbatim>\<open>*this\<close> and the memory, and return the outcome with
  \<^verbatim>\<open>*this\<close> and the memory as the call leaves them, also when it throws.
\<close>

definition InitOnConstruct :: "'a traits \<Rightarrow> Vector \<Rightarrow> RawMemory \<Rightarrow> ('a, unit) comp" where
  "InitOnConstruct T this new_data =
     (if nothrow_move_constructible T \<or> \<not> copy_constructible T
      then uninitialized_move_n T (GetAddress (m_data this)) (m_size this) (GetAddress new_data)
      else uninitialized_copy_n T (GetAddress (m_data this)) (m_size this) (GetAddress new_data))"

definition Reserve :: "'a traits \<Rightarrow> nat \<Rightarrow> Vector \<Rightarrow> 'a mem \<Rightarrow> (error + unit) \<times> Vector \<times> 'a mem" where
  "Reserve T new_capacity this m =
     (if new_capacity \<le> RawMemory_Capacity (m_data this) then (Inr (), this, m)
      else
        case then_do (RawMemory_ctor T new_capacity) (\<lambda>new_data.
             scoped new_data RawMemory_dtor (
               then_do (InitOnConstruct T this new_data) (\<lambda>_.
               then_do (destroy_n (GetAddress (m_data this)) (m_size this)) (\<lambda>_.
               return (RawMemory_Swap (m_data this) new_data))))) m of
          (Inl e, m') \<Rightarrow> (Inl e, this, m')
        | (Inr d, m') \<Rightarrow> (Inr (), this\<lparr>m_data := d\<rparr>, m'))"

definition Resize :: "'a traits \<Rightarrow> nat \<Rightarrow> Vector \<Rightarrow> 'a mem \<Rightarrow> (error + unit) \<times> Vector \<times> 'a mem" where
  "Resize T new_size this m =
     (if new_size > m_size this then
        case Reserve T new_size this m of
          (Inl e, this1, m1) \<Rightarrow> (Inl e, this1, m1)
        | (Inr _, this1, m1) \<Rightarrow>
            (case uninitialized_value_construct_n T
                    (ptr_add (GetAddress (m_data this1)) (m_size this1)) (new_size - m_size this1) m1 of
               (Inl e, m2) \<Rightarrow> (Inl e, this1, m2)
             | (Inr _, m2) \<Rightarrow> (Inr (), this1\<lparr>m_size := new_size\<rparr>, m2))
      else
        case destroy_n (ptr_add (GetAddress (m_data this)) new_size) (m_size this - new_size) m of
          (Inl e, m1) \<Rightarrow> (Inl e, this, m1)
        | (Inr _, m1) \<Rightarrow> (Inr (), this\<lparr>m_size := new_size\<rparr>, m1))"

definition EmplaceBack :: "'a traits \<Rightarrow> 'a args \<Rightarrow> Vector \<Rightarrow> 'a mem \<Rightarrow> (error + ptr) \<times> Vector \<times> 'a mem" where
  "EmplaceBack T args this m =
     (if m_size this = Capacity this then
        case then_do (RawMemory_ctor T (if m_size this = 0 then 1 else m_size this * 2)) (\<lambda>new_data.
             scoped new_data RawMemory_dtor (
               then_do (RawMemory_plus new_data (m_size this)) (\<lambda>result.
               then_do (T_construct T result args) (\<lambda>_.
               then_do (InitOnConstruct T this new_data) (\<lambda>_.
               then_do (destroy_n (GetAddress (m_data this)) (m_size this)) (\<lambda>_.
               let (d, nd) = RawMemory_Swap (m_data this) new_data
               in return ((result, d), nd))))))) m of
          (Inl e, m') \<Rightarrow> (Inl e, this, m')
        | (Inr (result, d), m') \<Rightarrow> (Inr result, this\<lparr>m_data := d, m_size := Suc (m_size this)\<rparr>, m')
      else
        case then_do (RawMemory_plus (m_data this) (m_size this)) (\<lambda>result.
             then_do (T_construct T result args) (\<lambda>_. return result)) m of
          (Inl e, m') \<Rightarrow> (Inl e, this, m')
        | (Inr result, m') \<Rightarrow> (Inr result, this\<lparr>m_size := Suc (m_size this)\<rparr>, m'))"

definition PushBack :: "'a traits \<Rightarrow> 'a args \<Rightarrow> Vector \<Rightarrow> 'a mem \<Rightarrow> (error + unit) \<times> Vector \<times> 'a mem" where
  "PushBack T args this m =
     (case EmplaceBack T args this m of (r, this', m') \<Rightarrow> (map_sum id (\<lambda>_. ()) r, this', m'))"

definition PopBack :: "Vector \<Rightarrow> 'a mem \<Rightarrow> (error + unit) \<times> Vector \<times> 'a mem" where
  "PopBack this m =
     (if m_size this > 0 then
        case destroy_at (ptr_sub (ptr_add (GetAddress (m_data this)) (m_size this)) 1) m of
          (Inl e, m') \<Rightarrow> (Inl e, this, m')
        | (Inr _, m') \<Rightarrow> (Inr (), this\<lparr>m_size := m_size this - 1\<rparr>, m')
      else (Inr (), this, m))"

definition ReAllocateEmplace :: "'a traits \<Rightarrow> nat \<Rightarrow> 'a args \<Rightarrow> Vector \<Rightarrow> 'a mem \<Rightarrow> (error + ptr) \<times> Vector \<times> 'a mem" where
  "ReAllocateEmplace T count args this m =
     (case then_do (RawMemory_ctor T (if m_size this = 0 then 1 else m_size this * 2)) (\<lambda>new_data.
           scoped new_data RawMemory_dtor (
             then_do (RawMemory_plus new_data count) (\<lambda>result.
             then_do (T_construct T result args) (\<lambda>_.
             then_do
               (if nothrow_move_constructible T \<or> \<not> copy_constructible T then
                  then_do (uninitialized_move_n T (GetAddress (m_data this)) count (GetAddress new_data)) (\<lambda>_.
                  uninitialized_move_n T (ptr_add (Vector_begin this) count) (m_size this - count)
                    (ptr_add (ptr_add (GetAddress new_data) count) 1))
                else
                  try_catch
                    (then_do (uninitialized_copy_n T (Vector_begin this) count (GetAddress new_data)) (\<lambda>_.
                     uninitialized_copy_n T (ptr_add (Vector_begin this) count) (m_size this - count)
                       (ptr_add (ptr_add (GetAddress new_data) count) 1)))
                    (\<lambda>e. then_do (destroy_n (ptr_add (GetAddress new_data) count) 1) (\<lambda>_. throw e))) (\<lambda>_.
             then_do (destroy_n (GetAddress (m_data this)) (m_size this)) (\<lambda>_.
             let (d, nd) = RawMemory_Swap (m_data this) new_data
             in return ((result, d), nd))))))) m of
        (Inl e, m') \<Rightarrow> (Inl e, this, m')
      | (Inr (result, d), m') \<Rightarrow> (Inr result, this\<lparr>m_data := d\<rparr>, m'))"

definition NoAllocateEmplace :: "'a traits \<Rightarrow> nat \<Rightarrow> 'a args \<Rightarrow> Vector \<Rightarrow> 'a mem \<Rightarrow> (error + ptr) \<times> Vector \<times> 'a mem" where
  "NoAllocateEmplace T count args this m =
     (case then_do
             (if m_size this \<noteq> 0 then
                then_do (RawMemory_plus (m_data this) (m_size this)) (\<lambda>p.
                then_do (T_move_construct T p (ptr_sub (Vector_end this) 1)) (\<lambda>_.
                then_do (try_catch
                           (std_move_backward T (ptr_add (Vector_begin this) count) (Vector_end this)
                              (ptr_add (Vector_end this) 1))
                           (\<lambda>e. then_do (destroy_n (Vector_end this) 1) (\<lambda>_. throw e))) (\<lambda>_.
                destroy_at (ptr_add (Vector_begin this) count))))
              else return ()) (\<lambda>_.
           then_do (RawMemory_plus (m_data this) count) (\<lambda>result.
           then_do (T_construct T result args) (\<lambda>_. return result))) m of
        (r, m') \<Rightarrow> (r, this, m'))"

definition Emplace :: "'a traits \<Rightarrow> ptr \<Rightarrow> 'a args \<Rightarrow> Vector \<Rightarrow> 'a mem \<Rightarrow> (error + ptr) \<times> Vector \<times> 'a mem" where
  "Emplace T pos args this m =
     (if \<not> (ptr_le (Vector_begin this) pos \<and> ptr_le pos (Vector_end this)) then (Inl Assert_failed, this, m)
      else
        let count = ptr_diff pos (Vector_begin this) in
        case (if m_size this = Capacity this then ReAllocateEmplace T count args this m
              else NoAllocateEmplace T count args this m) of
          (Inl e, this', m') \<Rightarrow> (Inl e, this', m')
        | (Inr result, this', m') \<Rightarrow> (Inr result, this'\<lparr>m_size := Suc (m_size this')\<rparr>, m'))"

text \<open>
  The two overloads \<^verbatim>\<open>Insert(pos, const T&)\<close> and \<^verbatim>\<open>Insert(pos, T&&)\<close>. The parameter
  \<open>value\<close> is a reference to an object of type \<open>T\<close>: an object outside the memory, of a
  given value, or the object at an address of the memory.
\<close>

datatype 'a reference = Object_outside 'a | Object_at ptr

definition Insert :: "'a traits \<Rightarrow> ptr \<Rightarrow> 'a reference \<Rightarrow> Vector \<Rightarrow> 'a mem \<Rightarrow> (error + ptr) \<times> Vector \<times> 'a mem" where
  "Insert T pos val this m =
     Emplace T pos (case val of Object_outside v \<Rightarrow> Args_outside Copy_ctor v | Object_at q \<Rightarrow> Lvalue_at q) this m"


definition Erase :: "'a traits \<Rightarrow> ptr \<Rightarrow> Vector \<Rightarrow> 'a mem \<Rightarrow> (error + ptr) \<times> Vector \<times> 'a mem" where
  "Erase T pos this m =
     (if \<not> (ptr_le (Vector_begin this) pos \<and> ptr_less pos (Vector_end this)) then (Inl Assert_failed, this, m)
      else
        let count = ptr_diff pos (Vector_begin this) in
        case noexcept (std_move_backward T (ptr_add (ptr_add (Vector_begin this) count) 1) (Vector_end this)
                         (ptr_sub (Vector_end this) 1)) m of
          (Inl e, m1) \<Rightarrow> (Inl e, this, m1)
        | (Inr _, m1) \<Rightarrow>
            (case PopBack this m1 of
               (Inl e, this2, m2) \<Rightarrow> (Inl e, this2, m2)
             | (Inr _, this2, m2) \<Rightarrow> (Inr (ptr_add (Vector_begin this2) count), this2, m2)))"

text \<open>
  The two assignment operators compare the addresses of \<^verbatim>\<open>*this\<close> and \<^verbatim>\<open>rhs\<close>: they work
  on a store of vectors, \<open>this\<close> and \<open>rhs\<close> being addresses.
\<close>

definition copy_assign :: "'a traits \<Rightarrow> nat \<Rightarrow> nat \<Rightarrow> (nat \<Rightarrow> Vector) \<Rightarrow> 'a mem \<Rightarrow> (error + unit) \<times> (nat \<Rightarrow> Vector) \<times> 'a mem" where
  "copy_assign T this rhs s m =
     (if this \<noteq> rhs then
        if m_size (s rhs) > RawMemory_Capacity (m_data (s this)) then
          case Vector_copy T (s rhs) m of
            (Inl e, m1) \<Rightarrow> (Inl e, s, m1)
          | (Inr rhs_copy, m1) \<Rightarrow>
              let (t, rc) = Vector_Swap (s this) rhs_copy in
              (case Vector_dtor rc m1 of
                 (Inl e, m2) \<Rightarrow> (Inl e, s(this := t), m2)
               | (Inr _, m2) \<Rightarrow> (Inr (), s(this := t), m2))
        else
          let count = min (m_size (s rhs)) (m_size (s this)) in
          case then_do (std_copy T (GetAddress (m_data (s rhs)))
                          (ptr_add (GetAddress (m_data (s rhs))) count) (GetAddress (m_data (s this)))) (\<lambda>_.
               if m_size (s rhs) < m_size (s this) then
                 destroy_n (ptr_add (GetAddress (m_data (s this))) (m_size (s rhs)))
                   (m_size (s this) - m_size (s rhs))
               else
                 uninitialized_copy_n T (ptr_add (GetAddress (m_data (s rhs))) (m_size (s this)))
                   (m_size (s rhs) - m_size (s this))
                   (ptr_add (GetAddress (m_data (s this))) (m_size (s this)))) m of
            (Inl e, m1) \<Rightarrow> (Inl e, s, m1)
          | (Inr _, m1) \<Rightarrow> (Inr (), s(this := (s this)\<lparr>m_size := m_size (s rhs)\<rparr>), m1)
      else (Inr (), s, m))"

definition move_assign :: "nat \<Rightarrow> nat \<Rightarrow> (nat \<Rightarrow> Vector) \<Rightarrow> (nat \<Rightarrow> Vector)" where
  "move_assign this rhs s =
     (if this \<noteq> rhs then
        let (t, r) = Vector_Swap (s this) (s rhs) in s(this := t, rhs := r)
      else s)"

subsection \<open>What a caller observes\<close>

text \<open>
  The element sequence: the slots \<open>[0, size)\<close> read through \<^verbatim>\<open>begin()\<close>; an entry is
  \<open>None\<close> where the slot holds no live object.
\<close>

definition contents :: "Vector \<Rightarrow> 'a mem \<Rightarrow> 'a option list" where
  "contents this m =
     map (\<lambda>i. case slot m (ptr_add (Vector_begin this) i) of Some s \<Rightarrow> s | None \<Rightarrow> None)
       [0..<m_size this]"

text \<open>
  What the arguments of a construction stand for in a memory \<open>m\<close>: \<open>arg_value args m\<close>
  is the value the new object gets (\<open>None\<close> when the arguments refer to an address that
  holds no live object), \<open>args_alive\<close> says that there is one, and \<open>arg_effect T args m\<close>
  is the memory \<open>m\<close> with the object the arguments hand over as an rvalue left moved from.
  \<open>moves_from_block args b\<close>: the arguments are an rvalue in block \<open>b\<close>;
  \<open>moves_own_element args this\<close>: they are an rvalue in the buffer of the vector.
\<close>

definition object_at :: "'a mem \<Rightarrow> ptr \<Rightarrow> 'a option" where
  "object_at m q = (case slot m q of Some s \<Rightarrow> s | None \<Rightarrow> None)"

definition arg_value :: "'a args \<Rightarrow> 'a mem \<Rightarrow> 'a option" where
  "arg_value args m = (case args of
       Args_outside f v \<Rightarrow> Some v
     | Lvalue_at q \<Rightarrow> object_at m q
     | Rvalue_at q \<Rightarrow> object_at m q)"

definition args_alive :: "'a args \<Rightarrow> 'a mem \<Rightarrow> bool" where
  "args_alive args m = (arg_value args m \<noteq> None)"

definition arg_effect :: "'a traits \<Rightarrow> 'a args \<Rightarrow> 'a mem \<Rightarrow> 'a mem" where
  "arg_effect T args m = (case args of
       Rvalue_at q \<Rightarrow> (case object_at m q of Some v \<Rightarrow> put q (Some (moved_from T v)) m | None \<Rightarrow> m)
     | _ \<Rightarrow> m)"



text \<open>
  The invariant of the specification: \<open>size \<le> capacity\<close>, the buffer is a block of
  \<open>capacity\<close> slots, the slots \<open>[0, size)\<close> hold live objects and the slots
  \<open>[size, capacity)\<close> hold none.
\<close>

definition vector_inv :: "Vector \<Rightarrow> 'a mem \<Rightarrow> bool" where
  "vector_inv this m =
     (m_size this \<le> Capacity this \<and>
      (case m_buffer (m_data this) of
         Null \<Rightarrow> Capacity this = 0
       | Ptr b i \<Rightarrow>
           i = 0 \<and> 0 < Capacity this \<and> b < length (heap m) \<and> fst (heap m ! b) \<and>
           length (snd (heap m ! b)) = Capacity this \<and>
           list_all (\<lambda>s. s \<noteq> None) (take (m_size this) (snd (heap m ! b))) \<and>
           list_all (\<lambda>s. s = None) (drop (m_size this) (snd (heap m ! b)))))"

section \<open>Which blocks a computation writes\<close>

text \<open>
  \<open>writes_only nb m m'\<close>: from \<open>m\<close> to \<open>m'\<close> no block was added and none but block \<open>nb\<close>
  has changed. \<open>frames nb c\<close>: the computation \<open>c\<close> does so from every memory, whatever its
  outcome.
\<close>

definition writes_only :: "nat \<Rightarrow> 'a mem \<Rightarrow> 'a mem \<Rightarrow> bool" where
  "writes_only nb m m' =
     (length (heap m') = length (heap m) \<and> (\<forall>c. c \<noteq> nb \<longrightarrow> heap m' ! c = heap m ! c))"

definition frames :: "nat \<Rightarrow> ('a, 'r) comp \<Rightarrow> bool" where
  "frames nb c = (\<forall>m r m'. c m = (r, m') \<longrightarrow> writes_only nb m m')"


section \<open>Describing a relocation\<close>

text \<open>
  The slots of block \<open>b\<close>, and whether \<open>b\<close> is a block that is still allocated.
  \<open>relocated b nb i n m m'\<close>: from \<open>m\<close> to \<open>m'\<close> the slots \<open>[i, i + n)\<close> of block \<open>nb\<close>
  have received the objects of the same slots of block \<open>b\<close>, which were alive and still
  are (with their value, or moved from); nothing else has changed.
\<close>

definition cells :: "'a mem \<Rightarrow> nat \<Rightarrow> 'a option list" where
  "cells m b = snd (heap m ! b)"

definition block_ok :: "'a mem \<Rightarrow> nat \<Rightarrow> bool" where
  "block_ok m b = (b < length (heap m) \<and> fst (heap m ! b))"

definition relocated :: "nat \<Rightarrow> nat \<Rightarrow> nat \<Rightarrow> nat \<Rightarrow> 'a mem \<Rightarrow> 'a mem \<Rightarrow> bool" where
  "relocated b nb i n m m' =
     (length (heap m') = length (heap m) \<and>
      (\<forall>c. c \<noteq> nb \<and> c \<noteq> b \<longrightarrow> heap m' ! c = heap m ! c) \<and>
      fst (heap m' ! nb) = fst (heap m ! nb) \<and> fst (heap m' ! b) = fst (heap m ! b) \<and>
      length (cells m' nb) = length (cells m nb) \<and> length (cells m' b) = length (cells m b) \<and>
      (\<forall>k. cells m' nb ! k = (if i \<le> k \<and> k < i + n then cells m b ! k else cells m nb ! k)) \<and>
      (\<forall>k. i \<le> k \<and> k < i + n \<longrightarrow> cells m b ! k \<noteq> None \<and> cells m' b ! k \<noteq> None) \<and>
      (\<forall>k. \<not> (i \<le> k \<and> k < i + n) \<longrightarrow> cells m' b ! k = cells m b ! k))"


section \<open>Shapes, outcomes and the precondition of a relocation\<close>

text \<open>
  \<open>same_shape m m'\<close>: the same blocks, each with the flag and the number of slots it had;
  \<open>keeps_shape c\<close>: the computation \<open>c\<close> leaves the shape as it was, whatever its outcome.
  An error is \<open>benign\<close> when it is an exception that the element type (or the allocation
  function) does throw at some step. \<open>loop_pre b nb i n m\<close> is what a relocation loop that
  has done \<open>i\<close> elements and has \<open>n\<close> to go needs of the old block \<open>b\<close> and the new
  block \<open>nb\<close>.
\<close>

definition same_shape :: "'a mem \<Rightarrow> 'a mem \<Rightarrow> bool" where
  "same_shape m m' =
     (length (heap m') = length (heap m) \<and>
      (\<forall>c. fst (heap m' ! c) = fst (heap m ! c) \<and> length (cells m' c) = length (cells m c)))"

definition keeps_shape :: "('a, 'r) comp \<Rightarrow> bool" where
  "keeps_shape c = (\<forall>m r m'. c m = (r, m') \<longrightarrow> same_shape m m')"

definition benign :: "'a traits \<Rightarrow> error \<Rightarrow> bool" where
  "benign T e = (\<exists>f k. e = Thrown f \<and> throws T f k)"


definition loop_pre :: "nat \<Rightarrow> nat \<Rightarrow> nat \<Rightarrow> nat \<Rightarrow> 'a mem \<Rightarrow> bool" where
  "loop_pre b nb i n m =
     (block_ok m b \<and> block_ok m nb \<and> i + n \<le> length (cells m b) \<and> i + n \<le> length (cells m nb) \<and>
      (\<forall>k. i \<le> k \<and> k < i + n \<longrightarrow> cells m b ! k \<noteq> None) \<and>
      (\<forall>k<i. cells m nb ! k \<noteq> None))"

section \<open>Element types and states used in the examples\<close>

text \<open>
  An element type like \<^verbatim>\<open>int\<close> (trivially copyable; a move leaves the source as it
  was), one like \<^verbatim>\<open>std::string\<close> (a move leaves the source empty), both with no operation
  that throws, and one whose copy constructor always throws while its move constructor never
  does.
\<close>

definition T_nat :: "nat traits" where
  "T_nat = \<lparr>nothrow_move_constructible = True, copy_constructible = True, trivially_copyable = True,
     throws = (\<lambda>f k. False), moved_from = (\<lambda>v. v), value_init = 0\<rparr>"

definition T_string :: "string traits" where
  "T_string = \<lparr>nothrow_move_constructible = True, copy_constructible = True, trivially_copyable = False,
     throws = (\<lambda>f k. False), moved_from = (\<lambda>v. []), value_init = []\<rparr>"

definition T_copy_throws :: "nat traits" where
  "T_copy_throws = \<lparr>nothrow_move_constructible = True, copy_constructible = True, trivially_copyable = False,
     throws = (\<lambda>f k. f = Copy_ctor), moved_from = (\<lambda>v. v), value_init = 0\<rparr>"

text \<open>The vector \<open>[1, 2, 3]\<close> of capacity 4, alone in memory.\<close>

definition ex_vec :: Vector where
  "ex_vec = \<lparr>m_data = \<lparr>m_buffer = Ptr 0 0, m_capacity = 4\<rparr>, m_size = 3\<rparr>"

definition ex_mem :: "nat mem" where
  "ex_mem = \<lparr>heap = [(True, [Some 1, Some 2, Some 3, None])], tick = 0\<rparr>"

text \<open>The vector \<open>[a, b, c]\<close> of strings, full.\<close>

definition ex_svec :: Vector where
  "ex_svec = \<lparr>m_data = \<lparr>m_buffer = Ptr 0 0, m_capacity = 3\<rparr>, m_size = 3\<rparr>"

definition ex_smem :: "string mem" where
  "ex_smem = \<lparr>heap = [(True, [Some ''a'', Some ''b'', Some ''c''])], tick = 0\<rparr>"

text \<open>Two vectors, \<open>[7]\<close> at address 0 and \<open>[8, 9]\<close> at address 1, and two arenas.\<close>

definition ex_store :: "nat \<Rightarrow> Vector" where
  "ex_store = (\<lambda>_. Vector_default)
     (0 := \<lparr>m_data = \<lparr>m_buffer = Ptr 0 0, m_capacity = 1\<rparr>, m_size = 1\<rparr>,
      1 := \<lparr>m_data = \<lparr>m_buffer = Ptr 1 0, m_capacity = 2\<rparr>, m_size = 2\<rparr>)"

definition ex_store_mem :: "nat mem" where
  "ex_store_mem = \<lparr>heap = [(True, [Some 7]), (True, [Some 8, Some 9])], tick = 0\<rparr>"








section \<open>Swap\<close>

lemma RawMemory_Swap_eq: "RawMemory_Swap x y = (y, x)"
  by (simp add: RawMemory_Swap_def)

lemma Vector_Swap_eq: "Vector_Swap a b = (b, a)"
  by (simp add: Vector_Swap_def RawMemory_Swap_eq)

text \<open>
  Claim C10. \<^verbatim>\<open>Vector::Swap\<close> leaves each of the two vectors with the members the other
  had, so with its size, its capacity and its element sequence; \<^verbatim>\<open>RawMemory::Swap\<close>
  does the same for two arenas. Both are functions without an error outcome, and neither
  touches the memory.
\<close>

theorem Swap_exchanges:
  "Vector_Swap a b = (b, a) \<and> RawMemory_Swap x y = (y, x) \<and>
   Size (fst (Vector_Swap a b)) = Size b \<and> Capacity (fst (Vector_Swap a b)) = Capacity b \<and>
   contents (fst (Vector_Swap a b)) m = contents b m \<and>
   Size (snd (Vector_Swap a b)) = Size a \<and> Capacity (snd (Vector_Swap a b)) = Capacity a \<and>
   contents (snd (Vector_Swap a b)) m = contents a m"
  by (simp add: Vector_Swap_eq RawMemory_Swap_eq)

section \<open>Assignment from the object itself\<close>

text \<open>
  Claim C8. Copy assignment and move assignment of a vector from itself return at the
  address test and leave the store of vectors and the memory as they were: the size, the
  capacity and the elements of the vector are unchanged.
\<close>

theorem self_assignment_identity:
  "copy_assign T v v s m = (Inr (), s, m) \<and> move_assign v v s = s"
  by (simp add: copy_assign_def move_assign_def)

section \<open>Reserve within the capacity\<close>

text \<open>
  Claim C6. \<open>Reserve n\<close> with \<open>n \<le> capacity\<close> returns at once: no allocation, and the
  vector (buffer address, capacity, size) and the memory (the elements) are unchanged.
\<close>

theorem Reserve_within_capacity:
  "new_capacity \<le> Capacity this \<Longrightarrow> Reserve T new_capacity this m = (Inr (), this, m)"
  by (simp add: Reserve_def Capacity_def)

theorem Reserve_within_capacity_witness:
  "(4::nat) \<le> Capacity ex_vec \<and> Reserve T_nat 4 ex_vec ex_mem = (Inr (), ex_vec, ex_mem)"
proof -
  have c: "4 \<le> Capacity ex_vec"
    by (simp add: ex_vec_def Capacity_def RawMemory_Capacity_def)
  show ?thesis using c Reserve_within_capacity [OF c] by simp
qed

section \<open>The shrinking operations keep the arena\<close>

lemma PopBack_data: "PopBack this m = (r, this', m') \<Longrightarrow> m_data this' = m_data this"
  by (auto simp: PopBack_def split: prod.splits sum.splits if_splits)

lemma Erase_data: "Erase T pos this m = (r, this', m') \<Longrightarrow> m_data this' = m_data this"
  by (auto simp: Erase_def Let_def split: prod.splits sum.splits if_splits dest: PopBack_data)

lemma Resize_shrink_data:
  "n \<le> m_size this \<Longrightarrow> Resize T n this m = (r, this', m') \<Longrightarrow> m_data this' = m_data this"
  by (auto simp: Resize_def split: prod.splits sum.splits if_splits)

text \<open>
  Claim C9. \<open>PopBack\<close>, \<open>Erase\<close> and \<open>Resize n\<close> with \<open>n \<le> size\<close> leave the member
  \<^verbatim>\<open>data_\<close> as it was, whatever their outcome: the buffer and the capacity do not change.
\<close>

theorem shrinking_keeps_capacity:
  "(case PopBack this m of (r, this', m') \<Rightarrow>
      m_data this' = m_data this \<and> Capacity this' = Capacity this) \<and>
   (case Erase T pos this m of (r, this', m') \<Rightarrow>
      m_data this' = m_data this \<and> Capacity this' = Capacity this) \<and>
   (n \<le> Size this \<longrightarrow>
      (case Resize T n this m of (r, this', m') \<Rightarrow>
         m_data this' = m_data this \<and> Capacity this' = Capacity this))"
  by (auto simp: Capacity_def Size_def split: prod.splits
      dest: PopBack_data Erase_data Resize_shrink_data)

theorem shrinking_keeps_capacity_witness:
  "Size ex_vec = 3 \<and> Capacity ex_vec = 4 \<and>
   Capacity (fst (snd (PopBack ex_vec ex_mem))) = 4 \<and>
   Capacity (fst (snd (Erase T_nat (Ptr 0 1) ex_vec ex_mem))) = 4 \<and>
   (1::nat) \<le> Size ex_vec \<and>
   Capacity (fst (snd (Resize T_nat 1 ex_vec ex_mem))) = 4 \<and>
   Size (fst (snd (Resize T_nat 1 ex_vec ex_mem))) = 1"
proof -
  have c: "Capacity ex_vec = 4" and s: "Size ex_vec = 3"
    by (simp_all add: ex_vec_def Capacity_def Size_def RawMemory_Capacity_def)
  have r: "Size (fst (snd (Resize T_nat 1 ex_vec ex_mem))) = 1"
    by code_simp
  show ?thesis
    using shrinking_keeps_capacity [of ex_vec ex_mem T_nat "Ptr 0 1" 1] c s r
    by (simp add: split_beta)
qed

section \<open>Moving an arena\<close>




section \<open>Moving a vector\<close>

text \<open>
  Claim C3, as stated: after a move construction and after a move assignment the source has
  size 0. For the move assignment this fails: the vector \<open>[7]\<close> assigned from \<open>[8, 9]\<close>
  leaves the source holding \<open>[7]\<close>.
\<close>

theorem move_assign_source_not_empty:
  "vector_inv (ex_store 0) ex_store_mem \<and> vector_inv (ex_store 1) ex_store_mem \<and>
   contents (ex_store 0) ex_store_mem = [Some 7] \<and>
   contents (ex_store 1) ex_store_mem = [Some 8, Some 9] \<and>
   Size (move_assign 0 1 ex_store 1) \<noteq> 0 \<and>
   contents (move_assign 0 1 ex_store 1) ex_store_mem = [Some 7]"
  by code_simp

text \<open>
  Claim C3, amended. The move constructor gives the new vector the arena and the size of the
  source and leaves the source default-constructed: size 0, capacity 0, a valid state. The
  move assignment from another vector exchanges the two: the destination gets the arena and
  the size of the source, and the source is left with what the destination had.
\<close>

theorem move_transfers_or_exchanges:
  "Vector_move other = (other, Vector_default) \<and>
   Size Vector_default = 0 \<and> Capacity Vector_default = 0 \<and> vector_inv Vector_default m \<and>
   (this \<noteq> rhs \<longrightarrow> move_assign this rhs s = s(this := s rhs, rhs := s this))"
  by (simp add: Vector_move_def Vector_Swap_eq move_assign_def Size_def Capacity_def
      RawMemory_Capacity_def Vector_default_def RawMemory_default_def vector_inv_def)

theorem move_transfers_or_exchanges_witness:
  "(0::nat) \<noteq> 1 \<and> move_assign 0 1 ex_store 0 = ex_store 1 \<and> move_assign 0 1 ex_store 1 = ex_store 0 \<and>
   Vector_move (ex_store 1) = (ex_store 1, Vector_default)"
  using move_transfers_or_exchanges [of "ex_store 1" ex_store_mem 0 1 ex_store]
  by simp

section \<open>Erase\<close>

text \<open>
  Claim C1. \<open>Erase\<close> is claimed to leave the sequence without the element at \<open>pos\<close> and
  with the later elements in their order. It shifts with \<^verbatim>\<open>std::move_backward\<close>, which
  (for a type that is not trivially copyable) moves the last element first, each step
  reading the slot the step before has written: on the strings \<open>[a, b, c]\<close>, erasing the
  first element leaves \<open>[c, ""]\<close>, not \<open>[b, c]\<close>.
\<close>

theorem Erase_overwrites_followers:
  "vector_inv ex_svec ex_smem \<and>
   contents ex_svec ex_smem = [Some ''a'', Some ''b'', Some ''c''] \<and>
   Erase T_string (Vector_begin ex_svec) ex_svec ex_smem =
     (Inr (Ptr 0 0), ex_svec\<lparr>m_size := 2\<rparr>,
      \<lparr>heap = [(True, [Some ''c'', Some '''', None])], tick = 2\<rparr>) \<and>
   contents (ex_svec\<lparr>m_size := 2\<rparr>) \<lparr>heap = [(True, [Some ''c'', Some '''', None])], tick = 2\<rparr> =
     [Some ''c'', Some '''']"
  by code_simp

section \<open>The invariant\<close>

text \<open>
  Claim C7. The invariant is claimed at every observable point of every run of public
  operations. The run \<open>Reserve 3\<close>, \<open>EmplaceBack 1\<close>, \<open>EmplaceBack 2\<close> gives \<open>[1, 2]\<close> with
  capacity 3. \<open>Insert\<close> at \<open>begin()\<close> then shifts in place, destroys the slot at the
  position and copy-constructs the new element there; when that copy throws, the caller is
  left with size 2, no object in slot 0 and a live object in slot 2.
\<close>

theorem Insert_throw_leaves_hole:
  "Reserve T_copy_throws 3 Vector_default \<lparr>heap = [], tick = 0\<rparr> =
     (Inr (), \<lparr>m_data = \<lparr>m_buffer = Ptr 0 0, m_capacity = 3\<rparr>, m_size = 0\<rparr>,
      \<lparr>heap = [(True, [None, None, None])], tick = 1\<rparr>) \<and>
   EmplaceBack T_copy_throws (Args_outside Construct 1)
       \<lparr>m_data = \<lparr>m_buffer = Ptr 0 0, m_capacity = 3\<rparr>, m_size = 0\<rparr>
       \<lparr>heap = [(True, [None, None, None])], tick = 1\<rparr> =
     (Inr (Ptr 0 0), \<lparr>m_data = \<lparr>m_buffer = Ptr 0 0, m_capacity = 3\<rparr>, m_size = 1\<rparr>,
      \<lparr>heap = [(True, [Some 1, None, None])], tick = 2\<rparr>) \<and>
   EmplaceBack T_copy_throws (Args_outside Construct 2)
       \<lparr>m_data = \<lparr>m_buffer = Ptr 0 0, m_capacity = 3\<rparr>, m_size = 1\<rparr>
       \<lparr>heap = [(True, [Some 1, None, None])], tick = 2\<rparr> =
     (Inr (Ptr 0 1), \<lparr>m_data = \<lparr>m_buffer = Ptr 0 0, m_capacity = 3\<rparr>, m_size = 2\<rparr>,
      \<lparr>heap = [(True, [Some 1, Some 2, None])], tick = 3\<rparr>) \<and>
   vector_inv \<lparr>m_data = \<lparr>m_buffer = Ptr 0 0, m_capacity = 3\<rparr>, m_size = 2\<rparr>
      \<lparr>heap = [(True, [Some (1::nat), Some 2, None])], tick = 3\<rparr> \<and>
   Insert T_copy_throws (Ptr 0 0) (Object_outside 7)
       \<lparr>m_data = \<lparr>m_buffer = Ptr 0 0, m_capacity = 3\<rparr>, m_size = 2\<rparr>
       \<lparr>heap = [(True, [Some 1, Some 2, None])], tick = 3\<rparr> =
     (Inl (Thrown Copy_ctor), \<lparr>m_data = \<lparr>m_buffer = Ptr 0 0, m_capacity = 3\<rparr>, m_size = 2\<rparr>,
      \<lparr>heap = [(True, [None, Some 1, Some 2])], tick = 7\<rparr>) \<and>
   \<not> vector_inv \<lparr>m_data = \<lparr>m_buffer = Ptr 0 0, m_capacity = 3\<rparr>, m_size = 2\<rparr>
      \<lparr>heap = [(True, [None, Some (1::nat), Some 2])], tick = 7\<rparr> \<and>
   contents \<lparr>m_data = \<lparr>m_buffer = Ptr 0 0, m_capacity = 3\<rparr>, m_size = 2\<rparr>
      \<lparr>heap = [(True, [None, Some (1::nat), Some 2])], tick = 7\<rparr> = [None, Some 1]"
  by code_simp

section \<open>Slots and the invariant\<close>

lemma heap_put: "heap (put (Ptr b i) s m) = (heap m)[b := (fst (heap m ! b), (cells m b)[i := s])]"
  by (simp add: put_def cells_def)

lemma slot_Some:
  "slot m (Ptr b i) = Some s \<longleftrightarrow> block_ok m b \<and> i < length (cells m b) \<and> cells m b ! i = s"
  by (auto simp: slot_def block_ok_def cells_def)

lemma list_all_drop_iff:
  "list_all P (drop n xs) = (\<forall>k. n \<le> k \<and> k < length xs \<longrightarrow> P (xs ! k))"
proof
  assume a: "list_all P (drop n xs)"
  show "\<forall>k. n \<le> k \<and> k < length xs \<longrightarrow> P (xs ! k)"
  proof (intro allI impI)
    fix k
    assume k: "n \<le> k \<and> k < length xs"
    then have "k - n < length (drop n xs)" by auto
    with a have "P (drop n xs ! (k - n))" by (simp add: list_all_length)
    with k show "P (xs ! k)" by simp
  qed
next
  assume "\<forall>k. n \<le> k \<and> k < length xs \<longrightarrow> P (xs ! k)"
  then show "list_all P (drop n xs)" by (simp add: list_all_length)
qed

lemma list_all_take_iff:
  "list_all P (take n xs) = (\<forall>k. k < n \<and> k < length xs \<longrightarrow> P (xs ! k))"
  by (auto simp: list_all_length)

lemma inv_Ptr:
  assumes "vector_inv this m" "m_buffer (m_data this) = Ptr b i"
  shows "i = 0" "block_ok m b" "length (cells m b) = m_capacity (m_data this)"
    "0 < m_capacity (m_data this)" "m_size this \<le> m_capacity (m_data this)"
    "\<And>k. k < m_size this \<Longrightarrow> cells m b ! k \<noteq> None"
    "\<And>k. m_size this \<le> k \<Longrightarrow> k < m_capacity (m_data this) \<Longrightarrow> cells m b ! k = None"
  using assms
  by (auto simp: vector_inv_def block_ok_def cells_def Capacity_def RawMemory_Capacity_def
      list_all_take_iff list_all_drop_iff)

lemma inv_Null:
  assumes "vector_inv this m" "m_buffer (m_data this) = Null"
  shows "m_capacity (m_data this) = 0" "m_size this = 0"
  using assms by (auto simp: vector_inv_def Capacity_def RawMemory_Capacity_def)

section \<open>The reallocating Emplace when a copy throws\<close>

subsection \<open>Frame lemmas\<close>

lemma writes_only_refl [simp]: "writes_only nb m m"
  by (simp add: writes_only_def)

lemma writes_only_trans: "writes_only nb m m1 \<Longrightarrow> writes_only nb m1 m2 \<Longrightarrow> writes_only nb m m2"
  by (simp add: writes_only_def)

lemma writes_only_tick [simp]: "writes_only nb m (m\<lparr>tick := t\<rparr>)"
  by (simp add: writes_only_def)

lemma writes_only_put [simp]: "writes_only nb m (put (Ptr nb i) s m)"
  by (simp add: writes_only_def put_def)

lemma framesI: "(\<And>m r m'. c m = (r, m') \<Longrightarrow> writes_only nb m m') \<Longrightarrow> frames nb c"
  by (simp add: frames_def)

lemma framesD: "frames nb c \<Longrightarrow> c m = (r, m') \<Longrightarrow> writes_only nb m m'"
  by (simp add: frames_def)

lemma frames_return [simp]: "frames nb (return x)"
  by (simp add: frames_def return_def)

lemma frames_throw [simp]: "frames nb (throw e)"
  by (simp add: frames_def throw_def)

lemma frames_then_do:
  "frames nb c \<Longrightarrow> (\<And>x. frames nb (f x)) \<Longrightarrow> frames nb (then_do c f)"
  unfolding frames_def then_do_def
  by (auto split: prod.splits sum.splits) (blast intro: writes_only_trans)

lemma frames_try_catch:
  "frames nb c \<Longrightarrow> (\<And>e. frames nb (h e)) \<Longrightarrow> frames nb (try_catch c h)"
  unfolding frames_def try_catch_def
  by (auto split: prod.splits sum.splits error.splits) (blast intro: writes_only_trans)

lemma frames_may_throw [simp]: "frames nb (may_throw T f)"
  by (auto simp: frames_def may_throw_def split: if_splits)

lemma frames_load [simp]: "frames nb (load p)"
  by (auto simp: frames_def load_def split: option.splits)

lemma frames_construct_raw [simp]: "frames nb (construct_raw (Ptr nb i) v)"
  by (auto simp: frames_def construct_raw_def split: option.splits)

lemma frames_assign [simp]: "frames nb (assign (Ptr nb i) v)"
  by (auto simp: frames_def assign_def split: option.splits)

lemma frames_destroy_at [simp]: "frames nb (destroy_at (Ptr nb i))"
  by (auto simp: frames_def destroy_at_def split: option.splits)

lemma frames_destroy_n [simp]: "frames nb (destroy_n (Ptr nb i) n)"
  by (induction n arbitrary: i) (auto intro!: frames_then_do)

lemma frames_T_copy_construct [simp]: "frames nb (T_copy_construct T (Ptr nb i) src)"
  by (auto simp: T_copy_construct_def intro!: frames_then_do)

lemma frames_uninitialized_copy_loop [simp]:
  "frames nb (uninitialized_copy_loop T src (Ptr nb d) i n)"
  by (induction n arbitrary: i) (auto intro!: frames_then_do frames_try_catch)


lemma frames_operator_delete [simp]: "frames nb (operator_delete (Ptr nb i))"
  by (auto simp: frames_def operator_delete_def writes_only_def nth_list_update split: if_splits)

subsection \<open>Reading the outcome of a sequence\<close>

lemma then_do_Inl:
  assumes "then_do c f m = (Inl e, m')"
  obtains "c m = (Inl e, m')" | x m1 where "c m = (Inr x, m1)" "f x m1 = (Inl e, m')"
  using assms by (auto simp: then_do_def split: prod.splits sum.splits)

lemma then_do_Inr:
  assumes "then_do c f m = (Inr y, m')"
  obtains x m1 where "c m = (Inr x, m1)" "f x m1 = (Inr y, m')"
  using assms by (auto simp: then_do_def split: prod.splits sum.splits)







lemma RawMemory_ctor_cases:
  assumes "RawMemory_ctor T n m = (r, m1)" "n \<noteq> 0"
  obtains "r = Inl (Thrown Alloc)"
  | "r = Inr \<lparr>m_buffer = Ptr (length (heap m)) 0, m_capacity = n\<rparr>"
    "heap m1 = heap m @ [(True, replicate n None)]"
  using assms
  by (auto simp: RawMemory_ctor_def Allocate_def operator_new_def then_do_def may_throw_def return_def
      split: prod.splits sum.splits if_splits)


lemma operator_delete_Inr:
  assumes "operator_delete (Ptr nb 0) m = (Inr (), m')"
  shows "heap m' = (heap m)[nb := (False, snd (heap m ! nb))] \<and> nb < length (heap m)"
  using assms by (auto simp: operator_delete_def split: if_splits)

subsection \<open>The block of ReAllocateEmplace\<close>






lemma position_count:
  assumes "ptr_le (Vector_begin this) pos" "ptr_le pos (Vector_end this)"
  shows "ptr_diff pos (Vector_begin this) \<le> m_size this"
  using assms
  by (cases "m_buffer (m_data this)"; cases pos)
     (auto simp: Vector_begin_def Vector_end_def GetAddress_def)

subsection \<open>The exception is reached\<close>

text \<open>
  The outcome the claim is about does occur: on a full vector that is not empty, when the
  allocation and the construction of the new element do not throw and the first copy of the
  relocation does, the call ends with the exception of the copy constructor, for every
  valid position.
\<close>

lemma ReAllocateEmplace_first_copy_throws:
  fixes m :: "'a mem"
  assumes inv: "vector_inv this m" and ne: "0 < m_size this"
    and tr: "copy_constructible T" "\<not> nothrow_move_constructible T"
    and cnt: "count \<le> m_size this"
    and quiet: "\<not> throws T Alloc (tick m)" "\<not> throws T f (Suc (tick m))"
    and thr: "throws T Copy_ctor (Suc (Suc (tick m)))"
  shows "\<exists>m'. ReAllocateEmplace T count (Args_outside f v) this m = (Inl (Thrown Copy_ctor), this, m')"
proof -
  from inv ne obtain b where buf: "m_buffer (m_data this) = Ptr b 0"
    by (cases "m_buffer (m_data this)")
       (auto simp: vector_inv_def Capacity_def RawMemory_Capacity_def)
  note i = inv_Ptr [OF inv buf]
  define cap where "cap = m_size this * 2"
  define nb where "nb = length (heap m)"
  define nd where "nd = \<lparr>m_buffer = Ptr nb 0, m_capacity = cap\<rparr>"
  have cap: "cap \<noteq> 0" "count < cap" "Suc count \<le> cap"
    using ne cnt by (simp_all add: cap_def)
  have b: "b < nb"
    using i(2) by (simp add: block_ok_def nb_def)
  obtain x where x: "cells m b ! 0 = Some x"
    using i(6) [OF ne] by auto
  define m1 where "m1 = m\<lparr>tick := Suc (tick m), heap := heap m @ [(True, replicate cap None)]\<rparr>"
  have ctor: "RawMemory_ctor T cap m = (Inr nd, m1)"
    using cap(1) quiet(1)
    by (simp add: RawMemory_ctor_def Allocate_def operator_new_def then_do_def may_throw_def
        return_def nd_def nb_def m1_def)
  define m1a where "m1a = put (Ptr nb count) (Some v) (m1\<lparr>tick := Suc (Suc (tick m))\<rparr>)"
  have s1: "slot (m1\<lparr>tick := Suc (Suc (tick m))\<rparr>) (Ptr nb count) = Some None"
    using cap(2) by (simp add: slot_def m1_def nb_def)
  have cons: "T_construct T (Ptr nb count) (Args_outside f v) m1 = (Inr (), m1a)"
    using quiet(2) s1
    by (simp add: T_construct_def then_do_def may_throw_def construct_raw_def m1a_def)
       (simp add: m1_def)
  have h1a: "heap m1a = heap m @ [(True, (replicate cap None)[count := Some v])]"
    by (simp add: m1a_def heap_put m1_def nb_def cells_def)
  have t1a: "tick m1a = Suc (Suc (tick m))"
    by (simp add: m1a_def put_def)
  have src: "slot m1a (Ptr b 0) = Some (Some x)"
    using b i(2,3,4) x by (simp add: slot_Some block_ok_def cells_def h1a nb_def nth_append)
  define m2 where "m2 = m1a\<lparr>tick := Suc (Suc (Suc (tick m)))\<rparr>"
  have copy: "T_copy_construct T d (Ptr b 0) m1a = (Inl (Thrown Copy_ctor), m2)" for d
    using thr src by (simp add: T_copy_construct_def then_do_def load_def may_throw_def t1a m2_def)
  obtain k where k: "m_size this = Suc k"
    using ne by (cases "m_size this") simp_all
  have copies: "then_do (uninitialized_copy_n T (Vector_begin this) count (GetAddress nd)) (\<lambda>_.
       uninitialized_copy_n T (ptr_add (Vector_begin this) count) (m_size this - count)
         (ptr_add (ptr_add (GetAddress nd) count) 1)) m1a = (Inl (Thrown Copy_ctor), m2)"
  proof (cases count)
    case 0
    then show ?thesis
      by (simp add: uninitialized_copy_n_def Vector_begin_def GetAddress_def buf nd_def k
          then_do_def return_def try_catch_def throw_def copy)
  next
    case (Suc c)
    then show ?thesis
      by (simp add: uninitialized_copy_n_def Vector_begin_def GetAddress_def buf nd_def
          then_do_def return_def try_catch_def throw_def copy)
  qed
  define m3 where "m3 = put (Ptr nb count) None m2"
  have s2: "slot m2 (Ptr nb count) = Some (Some v)"
    using cap(2) by (simp add: slot_def m2_def h1a nb_def)
  have destroy: "destroy_n (ptr_add (GetAddress nd) count) 1 m2 = (Inr (), m3)"
    using s2 by (simp add: GetAddress_def nd_def destroy_at_def then_do_def return_def m3_def)
  have ok3: "nb < length (heap m3)" "fst (heap m3 ! nb)"
    by (simp_all add: m3_def heap_put m2_def h1a nb_def)
  then obtain m4 where dtor: "RawMemory_dtor nd m3 = (Inr (), m4)"
    by (simp add: RawMemory_dtor_def Deallocate_def operator_delete_def nd_def)
  have plus: "RawMemory_plus nd count m1 = (Inr (Ptr nb count), m1)"
    using cap(2) by (simp add: RawMemory_plus_def nd_def return_def)
  have body: "then_do (RawMemory_plus nd count) (\<lambda>result.
             then_do (T_construct T result (Args_outside f v)) (\<lambda>_.
             then_do
               (if nothrow_move_constructible T \<or> \<not> copy_constructible T then
                  then_do (uninitialized_move_n T (GetAddress (m_data this)) count (GetAddress nd)) (\<lambda>_.
                  uninitialized_move_n T (ptr_add (Vector_begin this) count) (m_size this - count)
                    (ptr_add (ptr_add (GetAddress nd) count) 1))
                else
                  try_catch
                    (then_do (uninitialized_copy_n T (Vector_begin this) count (GetAddress nd)) (\<lambda>_.
                     uninitialized_copy_n T (ptr_add (Vector_begin this) count) (m_size this - count)
                       (ptr_add (ptr_add (GetAddress nd) count) 1)))
                    (\<lambda>e. then_do (destroy_n (ptr_add (GetAddress nd) count) 1) (\<lambda>_. throw e))) (\<lambda>_.
             then_do (destroy_n (GetAddress (m_data this)) (m_size this)) (\<lambda>_.
             let (d, nd') = RawMemory_Swap (m_data this) nd
             in return ((result, d), nd'))))) m1 = (Inl (Thrown Copy_ctor), m3)"
    using tr plus cons copies destroy
    by (simp add: then_do_def try_catch_def throw_def)
  show ?thesis
    using ne ctor body dtor
    by (simp add: ReAllocateEmplace_def cap_def [symmetric] then_do_def scoped_def throw_def)
qed

lemma Emplace_first_copy_throws:
  fixes m :: "'a mem"
  assumes inv: "vector_inv this m" and full: "Size this = Capacity this" and ne: "0 < Size this"
    and tr: "copy_constructible T" "\<not> nothrow_move_constructible T"
    and pos: "ptr_le (Vector_begin this) pos" "ptr_le pos (Vector_end this)"
    and quiet: "\<not> throws T Alloc (tick m)" "\<not> throws T f (Suc (tick m))"
    and thr: "throws T Copy_ctor (Suc (Suc (tick m)))"
  shows "\<exists>m'. Emplace T pos (Args_outside f v) this m = (Inl (Thrown Copy_ctor), this, m')"
proof -
  from ne have ne': "0 < m_size this"
    by (simp add: Size_def)
  from ReAllocateEmplace_first_copy_throws [OF inv ne' tr position_count [OF pos] quiet thr]
  obtain m' where "ReAllocateEmplace T (ptr_diff pos (Vector_begin this)) (Args_outside f v) this m =
      (Inl (Thrown Copy_ctor), this, m')"
    by blast
  with pos full show ?thesis
    by (simp add: Emplace_def Size_def)
qed

subsection \<open>The guarantee\<close>





section \<open>EmplaceBack\<close>

subsection \<open>One construction\<close>

lemma T_copy_construct_Inr:
  assumes "T_copy_construct T (Ptr nb i) (Ptr b j) m = (Inr (), m')"
  shows "\<exists>v. block_ok m b \<and> j < length (cells m b) \<and> cells m b ! j = Some v \<and>
     block_ok m nb \<and> i < length (cells m nb) \<and>
     heap m' = (heap m)[nb := (True, (cells m nb)[i := Some v])]"
  using assms
  by (auto simp: T_copy_construct_def then_do_def may_throw_def construct_raw_def load_def slot_def
      heap_put block_ok_def cells_def split: prod.splits sum.splits if_splits option.splits)

lemma T_move_construct_Inr:
  assumes "T_move_construct T (Ptr nb i) (Ptr b j) m = (Inr (), m')" "b \<noteq> nb"
  shows "\<exists>v. block_ok m b \<and> j < length (cells m b) \<and> cells m b ! j = Some v \<and>
     block_ok m nb \<and> i < length (cells m nb) \<and>
     heap m' = (heap m)[nb := (True, (cells m nb)[i := Some v]),
                        b := (True, (cells m b)[j := Some (moved_from T v)])]"
  using assms
  by (auto simp: T_move_construct_def then_do_def may_throw_def construct_raw_def load_def assign_def
      slot_def heap_put block_ok_def cells_def
      split: prod.splits sum.splits if_splits option.splits)

lemma T_move_construct_within_Inr:
  assumes "T_move_construct T (Ptr b i) (Ptr b j) m = (Inr (), m')" "i \<noteq> j"
  shows "\<exists>v. block_ok m b \<and> j < length (cells m b) \<and> cells m b ! j = Some v \<and>
     i < length (cells m b) \<and>
     heap m' = (heap m)[b := (True, (cells m b)[i := Some v, j := Some (moved_from T v)])]"
  using assms
  by (auto simp: T_move_construct_def then_do_def may_throw_def construct_raw_def load_def assign_def
      slot_def heap_put block_ok_def cells_def
      split: prod.splits sum.splits if_splits option.splits)

subsection \<open>The arguments of a construction\<close>

lemma arg_outside [simp]:
  "arg_value (Args_outside f v) m = Some v" "args_alive (Args_outside f v) m"
  "arg_effect T (Args_outside f v) m = m"
  by (simp_all add: arg_value_def args_alive_def arg_effect_def)

lemma object_at_Null [simp]: "object_at m Null = None"
  by (simp add: object_at_def slot_def)

lemma object_at_Some:
  "object_at m (Ptr b j) = Some v \<longleftrightarrow> block_ok m b \<and> j < length (cells m b) \<and> cells m b ! j = Some v"
  by (auto simp: object_at_def slot_def block_ok_def cells_def)

lemma arg_effect_Rvalue:
  assumes "object_at m (Ptr b j) = Some v"
  shows "heap (arg_effect T (Rvalue_at (Ptr b j)) m) =
     (heap m)[b := (True, (cells m b)[j := Some (moved_from T v)])]"
proof -
  from assms have "fst (heap m ! b)"
    by (simp add: object_at_Some block_ok_def)
  with assms show ?thesis
    by (simp add: arg_effect_def heap_put)
qed

lemma length_arg_effect [simp]: "length (heap (arg_effect T args m)) = length (heap m)"
  by (auto simp: arg_effect_def put_def split: args.splits option.splits ptr.splits)

text \<open>
  A construction that succeeds in an empty slot: the object the arguments stand for was
  alive, the new object has its value, and the rest of the memory is as the arguments
  leave it.
\<close>

lemma T_construct_Inr:
  assumes c: "T_construct T (Ptr nb i) args m = (Inr (), m')" and empty: "cells m nb ! i = None"
  shows "block_ok m nb \<and> i < length (cells m nb) \<and> arg_value args m \<noteq> None \<and>
     heap m' = (heap (arg_effect T args m))
                 [nb := (True, (cells (arg_effect T args m) nb)[i := arg_value args m])]"
proof (cases args)
  case (Args_outside f v)
  with c show ?thesis
    by (auto simp: T_construct_def then_do_def may_throw_def construct_raw_def slot_def heap_put
        block_ok_def cells_def split: prod.splits sum.splits if_splits option.splits)
next
  case (Lvalue_at q)
  show ?thesis
  proof (cases q)
    case Null
    with c Lvalue_at show ?thesis
      by (simp add: T_construct_def T_copy_construct_def then_do_def load_def slot_def)
  next
    case (Ptr b j)
    with c Lvalue_at have "T_copy_construct T (Ptr nb i) (Ptr b j) m = (Inr (), m')"
      by (simp add: T_construct_def)
    from T_copy_construct_Inr [OF this] obtain v where
      ok: "block_ok m b" "j < length (cells m b)" "cells m b ! j = Some v"
        "block_ok m nb" "i < length (cells m nb)"
      and h: "heap m' = (heap m)[nb := (True, (cells m nb)[i := Some v])]"
      by blast
    have "object_at m (Ptr b j) = Some v"
      using ok by (simp add: object_at_Some)
    then show ?thesis
      using ok h by (simp add: Lvalue_at Ptr arg_value_def arg_effect_def)
  qed
next
  case (Rvalue_at q)
  show ?thesis
  proof (cases q)
    case Null
    with c Rvalue_at show ?thesis
      by (simp add: T_construct_def T_move_construct_def then_do_def load_def slot_def)
  next
    case (Ptr b j)
    with c Rvalue_at have mv: "T_move_construct T (Ptr nb i) (Ptr b j) m = (Inr (), m')"
      by (simp add: T_construct_def)
    show ?thesis
    proof (cases "b = nb")
      case False
      from T_move_construct_Inr [OF mv False] obtain v where
        ok: "block_ok m b" "j < length (cells m b)" "cells m b ! j = Some v"
          "block_ok m nb" "i < length (cells m nb)"
        and h: "heap m' = (heap m)[nb := (True, (cells m nb)[i := Some v]),
                                   b := (True, (cells m b)[j := Some (moved_from T v)])]"
        by blast
      have ov: "object_at m (Ptr b j) = Some v"
        using ok by (simp add: object_at_Some)
      have he: "heap (arg_effect T args m) = (heap m)[b := (True, (cells m b)[j := Some (moved_from T v)])]"
        unfolding Rvalue_at Ptr by (rule arg_effect_Rvalue [OF ov])
      have ce: "cells (arg_effect T args m) nb = cells m nb"
        using False by (simp add: cells_def he)
      have av: "arg_value args m = Some v"
        by (simp add: arg_value_def Rvalue_at Ptr ov)
      have "heap m' = (heap m)[b := (True, (cells m b)[j := Some (moved_from T v)]),
                               nb := (True, (cells m nb)[i := Some v])]"
        unfolding h using False by (simp add: list_update_swap)
      then show ?thesis
        using ok by (simp add: he ce av)
    next
      case True
      from mv True empty have ne: "i \<noteq> j"
        by (auto simp: T_move_construct_def then_do_def load_def slot_def cells_def
            split: prod.splits sum.splits option.splits if_splits)
      from mv True have "T_move_construct T (Ptr nb i) (Ptr nb j) m = (Inr (), m')"
        by simp
      from T_move_construct_within_Inr [OF this ne] obtain v where
        ok: "block_ok m nb" "j < length (cells m nb)" "cells m nb ! j = Some v" "i < length (cells m nb)"
        and h: "heap m' = (heap m)[nb := (True, (cells m nb)[i := Some v, j := Some (moved_from T v)])]"
        by blast
      have ov: "object_at m (Ptr nb j) = Some v"
        using ok by (simp add: object_at_Some)
      have he: "heap (arg_effect T args m) = (heap m)[nb := (True, (cells m nb)[j := Some (moved_from T v)])]"
        unfolding Rvalue_at Ptr True by (rule arg_effect_Rvalue [OF ov])
      have ce: "cells (arg_effect T args m) nb = (cells m nb)[j := Some (moved_from T v)]"
        using ok(1) by (simp add: cells_def he block_ok_def)
      have av: "arg_value args m = Some v"
        by (simp add: arg_value_def Rvalue_at Ptr True ov)
      have "(cells m nb)[i := Some v, j := Some (moved_from T v)] =
          (cells m nb)[j := Some (moved_from T v), i := Some v]"
        using ne by (simp add: list_update_swap)
      then show ?thesis
        using ok by (simp add: he ce av h)
    qed
  qed
qed

text \<open>After an allocation the arguments stand for what they stood for.\<close>

lemma arg_after_alloc:
  assumes h1: "heap m1 = heap m @ [x]" and alive: "args_alive args m"
  shows "arg_value args m1 = arg_value args m"
    "heap (arg_effect T args m1) = heap (arg_effect T args m) @ [x]"
proof -
  have r: "object_at m1 q = object_at m q \<and>
      heap (case object_at m q of Some v \<Rightarrow> put q (Some (f v)) m1 | None \<Rightarrow> m1) =
      heap (case object_at m q of Some v \<Rightarrow> put q (Some (f v)) m | None \<Rightarrow> m) @ [x]"
    if "object_at m q \<noteq> None" for q and f :: "'a \<Rightarrow> 'a"
  proof (cases q)
    case Null
    with that show ?thesis by simp
  next
    case (Ptr b j)
    from that obtain v where v: "object_at m (Ptr b j) = Some v"
      by (auto simp: Ptr)
    then have b: "b < length (heap m)" "fst (heap m ! b)" "j < length (snd (heap m ! b))"
      "snd (heap m ! b) ! j = Some v"
      by (simp_all add: object_at_Some block_ok_def cells_def)
    then have "object_at m1 (Ptr b j) = Some v"
      by (simp add: object_at_Some block_ok_def cells_def h1 nth_append)
    with v b show ?thesis
      by (simp add: Ptr put_def h1 nth_append list_update_append1)
  qed
  show "arg_value args m1 = arg_value args m"
    using alive r by (cases args) (simp_all add: arg_value_def args_alive_def)
  show "heap (arg_effect T args m1) = heap (arg_effect T args m) @ [x]"
  proof (cases args)
    case (Rvalue_at q)
    with alive have "object_at m q \<noteq> None"
      by (simp add: args_alive_def arg_value_def)
    from r [OF this, of "moved_from T"] show ?thesis
      by (simp add: arg_effect_def Rvalue_at)
  qed (simp_all add: arg_effect_def h1)
qed

subsection \<open>Relocating the elements\<close>

lemma try_catch_rethrow_Inr:
  assumes "try_catch c (\<lambda>e. then_do d (\<lambda>_. throw e)) m = (Inr y, m')"
  shows "c m = (Inr y, m')"
  using assms
  by (auto simp: try_catch_def then_do_def throw_def split: prod.splits sum.splits error.splits)

lemma relocated_0: "relocated b nb i 0 m m"
  by (auto simp: relocated_def)

lemma relocated_step:
  assumes step: "heap m1 = (heap m)[nb := (True, (cells m nb)[i := Some v]), b := (True, (cells m b)[i := Some w])]"
    and ok: "block_ok m b" "block_ok m nb" "i < length (cells m b)" "i < length (cells m nb)"
      "cells m b ! i = Some v" "b \<noteq> nb"
    and rest: "relocated b nb (Suc i) n m1 m'"
  shows "relocated b nb i (Suc n) m m'"
proof -
  have c1: "cells m1 nb = (cells m nb)[i := Some v]" "cells m1 b = (cells m b)[i := Some w]"
    and f1: "fst (heap m1 ! nb) = fst (heap m ! nb)" "fst (heap m1 ! b) = fst (heap m ! b)"
    and l1: "length (heap m1) = length (heap m)"
    using ok by (simp_all add: step cells_def block_ok_def)
  have c2: "heap m1 ! c = heap m ! c" if "c \<noteq> nb \<and> c \<noteq> b" for c
    using that by (simp add: step)
  from rest have r1: "length (heap m') = length (heap m1)"
    and r2: "\<And>c. c \<noteq> nb \<and> c \<noteq> b \<Longrightarrow> heap m' ! c = heap m1 ! c"
    and r3: "fst (heap m' ! nb) = fst (heap m1 ! nb)" "fst (heap m' ! b) = fst (heap m1 ! b)"
    and r4: "length (cells m' nb) = length (cells m1 nb)" "length (cells m' b) = length (cells m1 b)"
    and r5: "\<And>k. cells m' nb ! k = (if Suc i \<le> k \<and> k < Suc i + n then cells m1 b ! k else cells m1 nb ! k)"
    and r6: "\<And>k. Suc i \<le> k \<and> k < Suc i + n \<Longrightarrow> cells m1 b ! k \<noteq> None \<and> cells m' b ! k \<noteq> None"
    and r7: "\<And>k. \<not> (Suc i \<le> k \<and> k < Suc i + n) \<Longrightarrow> cells m' b ! k = cells m1 b ! k"
    unfolding relocated_def by blast+
  have g1: "length (heap m') = length (heap m)"
    by (simp add: r1 l1)
  have g2: "heap m' ! c = heap m ! c" if "c \<noteq> nb \<and> c \<noteq> b" for c
    using that by (simp add: r2 c2)
  have g3: "fst (heap m' ! nb) = fst (heap m ! nb)" "fst (heap m' ! b) = fst (heap m ! b)"
    by (simp_all add: r3 f1)
  have g4: "length (cells m' nb) = length (cells m nb)" "length (cells m' b) = length (cells m b)"
    by (simp_all add: r4 c1)
  have g5: "cells m' nb ! k = (if i \<le> k \<and> k < i + Suc n then cells m b ! k else cells m nb ! k)" for k
  proof (cases "k = i")
    case True
    then show ?thesis using ok by (simp add: r5 c1)
  next
    case False
    then show ?thesis by (auto simp: r5 c1)
  qed
  have g6: "cells m b ! k \<noteq> None \<and> cells m' b ! k \<noteq> None" if "i \<le> k \<and> k < i + Suc n" for k
  proof (cases "k = i")
    case True
    have "cells m' b ! i = cells m1 b ! i"
      by (rule r7) simp
    then show ?thesis using ok True by (simp add: c1)
  next
    case False
    with that have "Suc i \<le> k \<and> k < Suc i + n" by simp
    from r6 [OF this] False show ?thesis by (simp add: c1)
  qed
  have g7: "cells m' b ! k = cells m b ! k" if "\<not> (i \<le> k \<and> k < i + Suc n)" for k
  proof -
    from that have "\<not> (Suc i \<le> k \<and> k < Suc i + n)" and "k \<noteq> i" by auto
    then show ?thesis using r7 [of k] by (simp add: c1)
  qed
  show ?thesis
    unfolding relocated_def using g1 g2 g3 g4 g5 g6 g7 by blast
qed

text \<open>A copy leaves the old block as it was: writing back what a slot holds changes nothing.\<close>

lemma copied_block:
  assumes "block_ok m b" "cells m b ! i = Some v" "b \<noteq> nb"
  shows "(heap m)[nb := y, b := (True, (cells m b)[i := Some v])] = (heap m)[nb := y]"
proof -
  have "(cells m b)[i := Some v] = cells m b"
    using assms(2) by (metis list_update_id)
  moreover have "(heap m)[nb := y] ! b = (True, cells m b)"
    using assms(1,3) by (simp add: block_ok_def cells_def prod_eq_iff)
  ultimately show ?thesis
    by (metis list_update_id)
qed

lemma uninitialized_copy_loop_Inr:
  assumes "uninitialized_copy_loop T (Ptr b 0) (Ptr nb 0) i n m = (Inr (), m')" "b \<noteq> nb"
  shows "relocated b nb i n m m'"
  using assms
proof (induction n arbitrary: i m)
  case 0
  then show ?case by (simp add: return_def relocated_0)
next
  case (Suc n)
  from Suc.prems(1) obtain u m1 where
    s: "try_catch (T_copy_construct T (Ptr nb i) (Ptr b i))
          (\<lambda>e. then_do (destroy_n (Ptr nb 0) i) (\<lambda>_. throw e)) m = (Inr u, m1)"
    and r: "uninitialized_copy_loop T (Ptr b 0) (Ptr nb 0) (Suc i) n m1 = (Inr (), m')"
    by (auto elim!: then_do_Inr)
  from s have "T_copy_construct T (Ptr nb i) (Ptr b i) m = (Inr (), m1)"
    by (auto dest: try_catch_rethrow_Inr)
  from T_copy_construct_Inr [OF this] obtain v where
    ok: "block_ok m b" "i < length (cells m b)" "cells m b ! i = Some v"
      "block_ok m nb" "i < length (cells m nb)"
    and h: "heap m1 = (heap m)[nb := (True, (cells m nb)[i := Some v])]"
    by blast
  from copied_block [OF ok(1) ok(3) Suc.prems(2)] h have h': "heap m1 =
      (heap m)[nb := (True, (cells m nb)[i := Some v]), b := (True, (cells m b)[i := Some v])]"
    by simp
  from Suc.IH [OF r Suc.prems(2)] have "relocated b nb (Suc i) n m1 m'" .
  from relocated_step [OF h' ok(1) ok(4) ok(2) ok(5) ok(3) Suc.prems(2) this]
  show ?case .
qed

lemma uninitialized_move_loop_Inr:
  assumes "uninitialized_move_loop T (Ptr b 0) (Ptr nb 0) i n m = (Inr (), m')" "b \<noteq> nb"
  shows "relocated b nb i n m m'"
  using assms
proof (induction n arbitrary: i m)
  case 0
  then show ?case by (simp add: return_def relocated_0)
next
  case (Suc n)
  from Suc.prems(1) obtain u m1 where
    s: "try_catch (T_move_construct T (Ptr nb i) (Ptr b i))
          (\<lambda>e. then_do (destroy_n (Ptr nb 0) i) (\<lambda>_. throw e)) m = (Inr u, m1)"
    and r: "uninitialized_move_loop T (Ptr b 0) (Ptr nb 0) (Suc i) n m1 = (Inr (), m')"
    by (auto elim!: then_do_Inr)
  from s have "T_move_construct T (Ptr nb i) (Ptr b i) m = (Inr (), m1)"
    by (auto dest: try_catch_rethrow_Inr)
  from T_move_construct_Inr [OF this Suc.prems(2)] obtain v where
    ok: "block_ok m b" "i < length (cells m b)" "cells m b ! i = Some v"
      "block_ok m nb" "i < length (cells m nb)"
    and h: "heap m1 = (heap m)[nb := (True, (cells m nb)[i := Some v]),
                               b := (True, (cells m b)[i := Some (moved_from T v)])]"
    by blast
  from Suc.IH [OF r Suc.prems(2)] have "relocated b nb (Suc i) n m1 m'" .
  from relocated_step [OF h ok(1) ok(4) ok(2) ok(5) ok(3) Suc.prems(2) this]
  show ?case .
qed

lemma InitOnConstruct_Inr:
  assumes "InitOnConstruct T this \<lparr>m_buffer = Ptr nb 0, m_capacity = cap\<rparr> m = (Inr (), m')"
    and "m_buffer (m_data this) = Ptr b 0" "b \<noteq> nb"
  shows "relocated b nb 0 (m_size this) m m'"
  using assms
  by (auto simp: InitOnConstruct_def GetAddress_def uninitialized_move_n_def uninitialized_copy_n_def
      split: if_splits intro: uninitialized_move_loop_Inr uninitialized_copy_loop_Inr)

subsection \<open>The invariant and the element sequence\<close>

lemma scoped_Inr:
  assumes "scoped l dtor body m = (Inr r, m')"
  obtains l' m2 where "body m = (Inr (r, l'), m2)" "dtor l' m2 = (Inr (), m')"
  using assms
  by (auto simp: scoped_def then_do_def return_def throw_def
      split: prod.splits sum.splits error.splits)

lemma arg_effect_inv:
  assumes inv: "vector_inv this m"
  shows "vector_inv this (arg_effect T args m)"
proof (cases args)
  case (Rvalue_at q)
  show ?thesis
  proof (cases "object_at m q")
    case None
    with inv show ?thesis by (simp add: arg_effect_def Rvalue_at)
  next
    case (Some v)
    then obtain c j where q: "q = Ptr c j"
      by (cases q) simp_all
    from Some have ok: "block_ok m c" "j < length (cells m c)" "cells m c ! j = Some v"
      by (simp_all add: q object_at_Some)
    have he: "heap (arg_effect T args m) = (heap m)[c := (True, (cells m c)[j := Some (moved_from T v)])]"
      unfolding Rvalue_at q using Some [unfolded q] by (rule arg_effect_Rvalue)
    show ?thesis
    proof (cases "m_buffer (m_data this)")
      case Null
      with inv show ?thesis by (simp add: vector_inv_def)
    next
      case (Ptr b i)
      note p = inv_Ptr [OF inv Ptr]
      show ?thesis
      proof (cases "c = b")
        case False
        then have "heap (arg_effect T args m) ! b = heap m ! b"
          by (simp add: he)
        with inv show ?thesis
          by (simp add: vector_inv_def Ptr)
      next
        case True
        have js: "j < m_size this"
        proof (rule ccontr)
          assume "\<not> j < m_size this"
          then have "cells m b ! j = None"
            using p(7) [of j] ok(2) p(3) True by simp
          with ok(3) True show False by simp
        qed
        have cb: "heap (arg_effect T args m) ! b = (True, (cells m b)[j := Some (moved_from T v)])"
          using p(2) True by (simp add: he block_ok_def)
        have "k < m_size this \<Longrightarrow> (cells m b)[j := Some (moved_from T v)] ! k \<noteq> None" for k
          using p(6) [of k] ok(2) True by (simp add: nth_list_update)
        moreover have "m_size this \<le> k \<Longrightarrow> k < m_capacity (m_data this) \<Longrightarrow>
            (cells m b)[j := Some (moved_from T v)] ! k = None" for k
          using p(7) [of k] js ok(2) True by (simp add: nth_list_update)
        ultimately show ?thesis
          using p(1-5) cb
          by (auto simp: vector_inv_def Ptr block_ok_def Capacity_def RawMemory_Capacity_def
              list_all_take_iff list_all_drop_iff)
      qed
    qed
  qed
qed (use inv in \<open>simp_all add: arg_effect_def\<close>)

lemma contents_nth:
  assumes "m_buffer (m_data this) = Ptr b 0" "block_ok m b" "k < m_size this"
    "m_size this \<le> length (cells m b)"
  shows "contents this m ! k = cells m b ! k"
  using assms
  by (simp add: contents_def Vector_begin_def GetAddress_def slot_def block_ok_def cells_def)

lemma length_contents [simp]: "length (contents this m) = m_size this"
  by (simp add: contents_def)

lemma appended:
  assumes buf: "m_buffer (m_data this') = Ptr nb 0" and sz: "m_size this' = Suc (m_size this)"
    and ok: "block_ok m' nb" and len: "length (cells m' nb) = m_capacity (m_data this')"
    and cap: "Suc (m_size this) \<le> m_capacity (m_data this')"
    and old: "\<And>k. k < m_size this \<Longrightarrow> cells m' nb ! k = contents this m ! k \<and> contents this m ! k \<noteq> None"
    and new: "cells m' nb ! m_size this = Some v"
    and rest: "\<And>k. m_size this < k \<Longrightarrow> k < m_capacity (m_data this') \<Longrightarrow> cells m' nb ! k = None"
  shows "contents this' m' = contents this m @ [Some v]" "vector_inv this' m'"
proof -
  have c: "contents this' m' ! k = cells m' nb ! k" if "k < Suc (m_size this)" for k
    using contents_nth [OF buf ok, of k] that sz len cap by simp
  show "contents this' m' = contents this m @ [Some v]"
  proof (rule nth_equalityI)
    show "length (contents this' m') = length (contents this m @ [Some v])"
      by (simp add: sz)
  next
    fix k
    assume "k < length (contents this' m')"
    then have k: "k < Suc (m_size this)" by (simp add: sz)
    show "contents this' m' ! k = (contents this m @ [Some v]) ! k"
    proof (cases "k < m_size this")
      case True
      then show ?thesis using c [OF k] old [OF True] by (simp add: nth_append)
    next
      case False
      with k have "k = m_size this" by simp
      then show ?thesis using c [OF k] new by (simp add: nth_append)
    qed
  qed
  have live: "cells m' nb ! k \<noteq> None" if "k < Suc (m_size this)" for k
    using that old [of k] new by (cases "k < m_size this") (auto simp: less_Suc_eq)
  show "vector_inv this' m'"
    using buf sz ok len cap live rest
    by (auto simp: vector_inv_def block_ok_def cells_def Capacity_def RawMemory_Capacity_def
        list_all_take_iff list_all_drop_iff)
qed

subsection \<open>The two branches\<close>

lemma RawMemory_ctor_Inr:
  assumes "RawMemory_ctor T n m = (Inr d, m1)" "n \<noteq> 0"
  shows "d = \<lparr>m_buffer = Ptr (length (heap m)) 0, m_capacity = n\<rparr>"
    "heap m1 = heap m @ [(True, replicate n None)]"
  using assms by (auto elim!: RawMemory_ctor_cases)

lemma RawMemory_plus_Inr:
  assumes "RawMemory_plus d n m = (Inr p, m')"
  shows "p = ptr_add (m_buffer d) n" "m' = m" "n \<le> m_capacity d"
  using assms by (auto simp: RawMemory_plus_def return_def throw_def split: if_splits)

lemma new_arena:
  assumes h1: "heap m1 = heap m @ [(True, replicate cap None)]" and i: "i < cap"
    and alive: "args_alive args m"
    and cons: "T_construct T (Ptr (length (heap m)) i) args m1 = (Inr (), m1a)"
  shows "length (heap m1a) = Suc (length (heap m))"
    "heap m1a ! length (heap m) = (True, (replicate cap None)[i := arg_value args m])"
    "\<And>c. c < length (heap m) \<Longrightarrow> heap m1a ! c = heap (arg_effect T args m) ! c"
proof -
  let ?nb = "length (heap m)"
  note a = arg_after_alloc [OF h1 alive]
  have empty: "cells m1 ?nb ! i = None"
    using i by (simp add: cells_def h1)
  from T_construct_Inr [OF cons empty]
  have h1a: "heap m1a = (heap (arg_effect T args m1))
      [?nb := (True, (cells (arg_effect T args m1) ?nb)[i := arg_value args m1])]"
    by simp
  have e1: "heap (arg_effect T args m1) = heap (arg_effect T args m) @ [(True, replicate cap None)]"
    by (rule a(2))
  have c1: "cells (arg_effect T args m1) ?nb = replicate cap None"
    by (simp add: cells_def e1 nth_append)
  show "length (heap m1a) = Suc ?nb"
    by (simp add: h1a e1)
  show "heap m1a ! ?nb = (True, (replicate cap None)[i := arg_value args m])"
    unfolding h1a c1 a(1) by (simp add: e1)
  show "heap m1a ! c = heap (arg_effect T args m) ! c" if "c < ?nb" for c
    using that by (simp add: h1a e1 nth_append)
qed

lemma EmplaceBack_in_place:
  fixes m m' :: "'a mem"
  assumes inv: "vector_inv this m" and room: "m_size this \<noteq> Capacity this"
    and res: "EmplaceBack T args this m = (Inr result, this', m')"
  shows "this' = this\<lparr>m_size := Suc (m_size this)\<rparr> \<and>
     result = ptr_add (m_buffer (m_data this)) (m_size this) \<and>
     contents this' m' = contents this (arg_effect T args m) @ [arg_value args m] \<and>
     vector_inv this' m'"
proof -
  let ?me = "arg_effect T args m"
  have inv_me: "vector_inv this ?me"
    using inv by (rule arg_effect_inv)
  from inv room obtain b where buf: "m_buffer (m_data this) = Ptr b 0"
    by (cases "m_buffer (m_data this)")
       (auto simp: vector_inv_def Capacity_def RawMemory_Capacity_def)
  note i0 = inv_Ptr [OF inv buf]
  note i = inv_Ptr [OF inv_me buf]
  from room i have lt: "m_size this < m_capacity (m_data this)"
    by (simp add: Capacity_def RawMemory_Capacity_def)
  from res room have this': "this' = this\<lparr>m_size := Suc (m_size this)\<rparr>"
    and run: "then_do (RawMemory_plus (m_data this) (m_size this)) (\<lambda>result.
             then_do (T_construct T result args) (\<lambda>_. return result)) m = (Inr result, m')"
    by (auto simp: EmplaceBack_def split: prod.splits sum.splits)
  from run obtain p m0 u where p: "RawMemory_plus (m_data this) (m_size this) m = (Inr p, m0)"
    and c': "T_construct T p args m0 = (Inr u, m')" and r: "result = p"
    by (auto elim!: then_do_Inr simp: return_def)
  from RawMemory_plus_Inr [OF p] buf have p': "p = Ptr b (m_size this)" "m0 = m"
    by simp_all
  from c' p' have cons: "T_construct T (Ptr b (m_size this)) args m = (Inr (), m')"
    by simp
  have empty: "cells m b ! m_size this = None"
    using i0(7) [of "m_size this"] lt by simp
  from T_construct_Inr [OF cons empty] obtain v where v: "arg_value args m = Some v"
    and h: "heap m' = (heap ?me)[b := (True, (cells ?me b)[m_size this := Some v])]"
    by auto
  have cm': "cells m' b = (cells ?me b)[m_size this := Some v]" and ok': "block_ok m' b"
    using i(2) by (simp_all add: h cells_def block_ok_def)
  have old: "cells m' b ! k = contents this ?me ! k \<and> contents this ?me ! k \<noteq> None"
    if "k < m_size this" for k
    using that contents_nth [OF buf i(2) that] i(3,5,6) by (simp add: cm')
  have f1: "m_buffer (m_data this') = Ptr b 0" by (simp add: this' buf)
  have f2: "m_size this' = Suc (m_size this)" by (simp add: this')
  have f4: "length (cells m' b) = m_capacity (m_data this')" by (simp add: cm' this' i(3))
  have f5: "Suc (m_size this) \<le> m_capacity (m_data this')" using lt by (simp add: this')
  have f7: "cells m' b ! m_size this = Some v" using lt by (simp add: cm' i(3))
  have f8: "cells m' b ! k = None" if "m_size this < k" "k < m_capacity (m_data this')" for k
    using that i(7) [of k] by (simp add: cm' this')
  from appended [OF f1 f2 ok' f4 f5 old f7 f8]
  have "contents this' m' = contents this ?me @ [Some v] \<and> vector_inv this' m'"
    by simp
  then show ?thesis
    using this' r p' buf v by simp
qed

lemma EmplaceBack_reallocating_steps:
  fixes m m' :: "'a mem"
  assumes full: "m_size this = Capacity this"
    and res: "EmplaceBack T args this m = (Inr result, this', m')"
  obtains new_data m1 m1a m1b m1c where
    "RawMemory_ctor T (if m_size this = 0 then 1 else m_size this * 2) m = (Inr new_data, m1)"
    "RawMemory_plus new_data (m_size this) m1 = (Inr result, m1)"
    "T_construct T result args m1 = (Inr (), m1a)"
    "InitOnConstruct T this new_data m1a = (Inr (), m1b)"
    "destroy_n (GetAddress (m_data this)) (m_size this) m1b = (Inr (), m1c)"
    "RawMemory_dtor (m_data this) m1c = (Inr (), m')"
    "this' = this\<lparr>m_data := new_data, m_size := Suc (m_size this)\<rparr>"
proof -
  from res full obtain d where
    run: "then_do (RawMemory_ctor T (if m_size this = 0 then 1 else m_size this * 2)) (\<lambda>new_data.
             scoped new_data RawMemory_dtor (
               then_do (RawMemory_plus new_data (m_size this)) (\<lambda>result.
               then_do (T_construct T result args) (\<lambda>_.
               then_do (InitOnConstruct T this new_data) (\<lambda>_.
               then_do (destroy_n (GetAddress (m_data this)) (m_size this)) (\<lambda>_.
               let (d, nd) = RawMemory_Swap (m_data this) new_data
               in return ((result, d), nd))))))) m = (Inr (result, d), m')"
    and this': "this' = this\<lparr>m_data := d, m_size := Suc (m_size this)\<rparr>"
    by (auto simp: EmplaceBack_def split: prod.splits sum.splits)
  from run that this' show ?thesis
    by (auto elim!: then_do_Inr scoped_Inr
        simp: return_def RawMemory_Swap_eq RawMemory_plus_def throw_def split: if_splits)
qed

lemma destroy_n_Null_0: "destroy_n Null 0 m = (Inr (), m)"
  by (simp add: return_def)

lemma EmplaceBack_reallocating:
  fixes m m' :: "'a mem"
  assumes inv: "vector_inv this m" and alive: "args_alive args m"
    and full: "m_size this = Capacity this"
    and res: "EmplaceBack T args this m = (Inr result, this', m')"
  shows "this' = \<lparr>m_data = \<lparr>m_buffer = Ptr (length (heap m)) 0,
                             m_capacity = (if m_size this = 0 then 1 else m_size this * 2)\<rparr>,
                  m_size = Suc (m_size this)\<rparr> \<and>
     result = Ptr (length (heap m)) (m_size this) \<and>
     contents this' m' = contents this (arg_effect T args m) @ [arg_value args m] \<and>
     vector_inv this' m'"
proof -
  let ?me = "arg_effect T args m"
  define cap where "cap = (if m_size this = 0 then 1 else m_size this * 2)"
  define nb where "nb = length (heap m)"
  have cap: "cap \<noteq> 0" "m_size this < cap"
    by (auto simp: cap_def)
  have inv_me: "vector_inv this ?me"
    using inv by (rule arg_effect_inv)
  from alive obtain v where v: "arg_value args m = Some v"
    by (auto simp: args_alive_def)
  from full res obtain new_data m1 m1a m1b m1c where
    ctor: "RawMemory_ctor T cap m = (Inr new_data, m1)"
    and plus: "RawMemory_plus new_data (m_size this) m1 = (Inr result, m1)"
    and cons: "T_construct T result args m1 = (Inr (), m1a)"
    and init: "InitOnConstruct T this new_data m1a = (Inr (), m1b)"
    and dest: "destroy_n (GetAddress (m_data this)) (m_size this) m1b = (Inr (), m1c)"
    and dtor: "RawMemory_dtor (m_data this) m1c = (Inr (), m')"
    and this': "this' = this\<lparr>m_data := new_data, m_size := Suc (m_size this)\<rparr>"
    unfolding cap_def by (rule EmplaceBack_reallocating_steps)
  from RawMemory_ctor_Inr [OF ctor cap(1)]
  have nd: "new_data = \<lparr>m_buffer = Ptr nb 0, m_capacity = cap\<rparr>"
    and h1: "heap m1 = heap m @ [(True, replicate cap None)]"
    by (simp_all add: nb_def)
  from RawMemory_plus_Inr(1) [OF plus] have r: "result = Ptr nb (m_size this)"
    by (simp add: nd)
  from cons r have "T_construct T (Ptr (length (heap m)) (m_size this)) args m1 = (Inr (), m1a)"
    by (simp add: nb_def)
  note a = new_arena [OF h1 cap(2) alive this]
  have l1a: "length (heap m1a) = Suc nb"
    using a(1) by (simp add: nb_def)
  have n1a: "heap m1a ! nb = (True, (replicate cap None)[m_size this := Some v])"
    using a(2) by (simp add: nb_def v)
  have o1a: "heap m1a ! c = heap ?me ! c" if "c < nb" for c
    using a(3) [of c] that by (simp add: nb_def)
  have new_block: "length (heap m') = Suc nb \<and> fst (heap m' ! nb) \<and> length (cells m' nb) = cap \<and>
      (\<forall>k. cells m' nb ! k =
         (if k < m_size this then contents this ?me ! k
          else (replicate cap None)[m_size this := Some v] ! k)) \<and>
      (\<forall>k < m_size this. contents this ?me ! k \<noteq> None)"
  proof (cases "m_buffer (m_data this)")
    case Null
    from inv_Null [OF inv Null] have z: "m_size this = 0" by simp
    from init have "m1b = m1a"
      by (auto simp: InitOnConstruct_def z uninitialized_move_n_def uninitialized_copy_n_def
          return_def split: if_splits)
    moreover from dest have "m1c = m1b"
      by (simp add: z return_def)
    moreover from dtor have "m' = m1c"
      by (simp add: RawMemory_dtor_def Deallocate_def operator_delete_def Null)
    ultimately have "m' = m1a" by simp
    then show ?thesis
      using l1a n1a z by (simp add: cells_def)
  next
    case (Ptr b j)
    note i = inv_Ptr [OF inv_me Ptr]
    have buf: "m_buffer (m_data this) = Ptr b 0"
      using Ptr i(1) by simp
    have b: "b < nb" "b \<noteq> nb"
      using i(2) by (simp_all add: block_ok_def nb_def)
    from InitOnConstruct_Inr [OF init [unfolded nd] buf b(2)]
    have rel: "relocated b nb 0 (m_size this) m1a m1b" .
    from dest have "destroy_n (Ptr b 0) (m_size this) m1b = (Inr (), m1c)"
      by (simp add: GetAddress_def buf)
    from framesD [OF frames_destroy_n this] have w: "writes_only b m1b m1c" .
    from dtor have "operator_delete (Ptr b 0) m1c = (Inr (), m')"
      by (simp add: RawMemory_dtor_def Deallocate_def buf)
    from operator_delete_Inr [OF this]
    have del: "heap m' = (heap m1c)[b := (False, snd (heap m1c ! b))]" by simp
    have l1b: "length (heap m1b) = Suc nb"
      using rel by (simp add: relocated_def l1a)
    have "heap m' ! nb = heap m1c ! nb"
      using b by (simp add: del)
    also have "\<dots> = heap m1b ! nb"
      using w b by (simp add: writes_only_def)
    finally have same: "heap m' ! nb = heap m1b ! nb" .
    have len: "length (heap m') = Suc nb"
      using w by (simp add: del writes_only_def l1b)
    have fst: "fst (heap m' ! nb)"
      using rel n1a by (simp add: same relocated_def)
    have cl: "length (cells m' nb) = cap"
      using rel n1a by (simp add: same relocated_def cells_def)
    have old: "cells m1a b ! k = contents this ?me ! k" if "k < m_size this" for k
      using contents_nth [OF buf i(2) that] i(3,5) o1a [OF b(1)] by (simp add: cells_def)
    have ck: "cells m' nb ! k =
        (if k < m_size this then contents this ?me ! k
         else (replicate cap None)[m_size this := Some v] ! k)" for k
    proof -
      have "cells m' nb ! k = cells m1b nb ! k"
        by (simp add: cells_def same)
      also have "\<dots> = (if k < m_size this then cells m1a b ! k else cells m1a nb ! k)"
        using rel by (simp add: relocated_def)
      finally show ?thesis
        using old [of k] n1a by (simp add: cells_def)
    qed
    have "contents this ?me ! k \<noteq> None" if "k < m_size this" for k
      using contents_nth [OF buf i(2) that] i(3,5) i(6) [OF that] by simp
    with len fst cl ck show ?thesis by blast
  qed
  have f1: "m_buffer (m_data this') = Ptr nb 0" by (simp add: this' nd)
  have f2: "m_size this' = Suc (m_size this)" by (simp add: this')
  have f3: "block_ok m' nb" using new_block by (simp add: block_ok_def)
  have f4: "length (cells m' nb) = m_capacity (m_data this')" using new_block by (simp add: this' nd)
  have f5: "Suc (m_size this) \<le> m_capacity (m_data this')" using cap by (simp add: this' nd)
  have f6: "cells m' nb ! k = contents this ?me ! k \<and> contents this ?me ! k \<noteq> None"
    if "k < m_size this" for k
    using new_block that by simp
  have f7: "cells m' nb ! m_size this = Some v"
    using new_block cap by simp
  have f8: "cells m' nb ! k = None" if "m_size this < k" "k < m_capacity (m_data this')" for k
    using new_block that by (simp add: this' nd)
  from appended [OF f1 f2 f3 f4 f5 f6 f7 f8]
  have "contents this' m' = contents this ?me @ [Some v] \<and> vector_inv this' m'"
    by simp
  then show ?thesis
    using this' nd r v unfolding cap_def nb_def by simp
qed

subsection \<open>Shapes\<close>

lemma same_shape_refl [simp]: "same_shape m m"
  by (simp add: same_shape_def)

lemma same_shape_trans: "same_shape m m1 \<Longrightarrow> same_shape m1 m2 \<Longrightarrow> same_shape m m2"
  by (simp add: same_shape_def)

lemma same_shape_tick [simp]: "same_shape m (m\<lparr>tick := t\<rparr>)"
  by (simp add: same_shape_def cells_def)

lemma nth_update_block:
  "xs[b := (fst (xs ! b), ys)] ! c = (if c = b \<and> b < length xs then (fst (xs ! b), ys) else xs ! c)"
  by (cases "b < length xs") (auto simp: nth_list_update list_update_beyond)

lemma same_shape_put: "same_shape m (put (Ptr b i) s m)"
  by (simp add: same_shape_def put_def cells_def nth_update_block)

lemma same_shape_block_ok: "same_shape m m' \<Longrightarrow> block_ok m' b = block_ok m b"
  by (simp add: same_shape_def block_ok_def)

lemma keeps_shapeD: "keeps_shape c \<Longrightarrow> c m = (r, m') \<Longrightarrow> same_shape m m'"
  by (simp add: keeps_shape_def)

lemma keeps_shape_return [simp]: "keeps_shape (return x)"
  by (simp add: keeps_shape_def return_def)

lemma keeps_shape_throw [simp]: "keeps_shape (throw e)"
  by (simp add: keeps_shape_def throw_def)

lemma keeps_shape_then_do:
  "keeps_shape c \<Longrightarrow> (\<And>x. keeps_shape (f x)) \<Longrightarrow> keeps_shape (then_do c f)"
  unfolding keeps_shape_def then_do_def
  by (auto split: prod.splits sum.splits) (blast intro: same_shape_trans)

lemma keeps_shape_try_catch:
  "keeps_shape c \<Longrightarrow> (\<And>e. keeps_shape (h e)) \<Longrightarrow> keeps_shape (try_catch c h)"
  unfolding keeps_shape_def try_catch_def
  by (auto split: prod.splits sum.splits error.splits) (blast intro: same_shape_trans)

lemma keeps_shape_may_throw [simp]: "keeps_shape (may_throw T f)"
  by (auto simp: keeps_shape_def may_throw_def split: if_splits)

lemma keeps_shape_load [simp]: "keeps_shape (load p)"
  by (auto simp: keeps_shape_def load_def split: option.splits)

lemma keeps_shape_construct_raw [simp]: "keeps_shape (construct_raw p v)"
  by (cases p) (auto simp: keeps_shape_def construct_raw_def same_shape_put slot_def split: option.splits)

lemma keeps_shape_assign [simp]: "keeps_shape (assign p v)"
  by (cases p) (auto simp: keeps_shape_def assign_def same_shape_put slot_def split: option.splits)

lemma keeps_shape_destroy_at [simp]: "keeps_shape (destroy_at p)"
  by (cases p) (auto simp: keeps_shape_def destroy_at_def same_shape_put slot_def split: option.splits)

lemma keeps_shape_destroy_n [simp]: "keeps_shape (destroy_n p n)"
  by (induction n arbitrary: p) (auto intro!: keeps_shape_then_do)

lemma keeps_shape_T_copy_construct [simp]: "keeps_shape (T_copy_construct T p q)"
  by (auto simp: T_copy_construct_def intro!: keeps_shape_then_do)

lemma keeps_shape_T_move_construct [simp]: "keeps_shape (T_move_construct T p q)"
  by (auto simp: T_move_construct_def intro!: keeps_shape_then_do)

lemma keeps_shape_T_construct [simp]: "keeps_shape (T_construct T p args)"
  by (cases args) (auto simp: T_construct_def intro!: keeps_shape_then_do)

lemma keeps_shape_uninitialized_copy_loop [simp]:
  "keeps_shape (uninitialized_copy_loop T src dst i n)"
  by (induction n arbitrary: i) (auto intro!: keeps_shape_then_do keeps_shape_try_catch)

lemma keeps_shape_uninitialized_move_loop [simp]:
  "keeps_shape (uninitialized_move_loop T src dst i n)"
  by (induction n arbitrary: i) (auto intro!: keeps_shape_then_do keeps_shape_try_catch)

lemma keeps_shape_InitOnConstruct [simp]: "keeps_shape (InitOnConstruct T this new_data)"
  by (simp add: InitOnConstruct_def uninitialized_move_n_def uninitialized_copy_n_def)

subsection \<open>How a step can fail\<close>

lemma try_catch_Inl:
  assumes "try_catch c h m = (Inl e, m')"
  obtains (caught) f m1 where "c m = (Inl (Thrown f), m1)" "h (Thrown f) m1 = (Inl e, m')"
  | (passed) "c m = (Inl e, m')" "\<forall>f. e \<noteq> Thrown f"
  using assms by (auto simp: try_catch_def split: prod.splits sum.splits error.splits)

lemma benign_may_throw:
  assumes "may_throw T f m = (Inl e, m')"
  shows "benign T e \<and> heap m' = heap m"
  using assms by (auto simp: may_throw_def benign_def split: if_splits)

lemma T_copy_construct_Inl:
  assumes "T_copy_construct T (Ptr nb i) (Ptr b j) m = (Inl e, m')"
    and "block_ok m b" "j < length (cells m b)" "cells m b ! j \<noteq> None"
    and "block_ok m nb" "i < length (cells m nb)"
  shows "benign T e \<and> heap m' = heap m"
  using assms
  by (auto simp: T_copy_construct_def then_do_def may_throw_def construct_raw_def load_def slot_def
      benign_def block_ok_def cells_def split: prod.splits sum.splits if_splits option.splits)

lemma T_move_construct_Inl:
  assumes "T_move_construct T (Ptr nb i) (Ptr b j) m = (Inl e, m')"
    and "block_ok m b" "j < length (cells m b)" "cells m b ! j \<noteq> None"
    and "block_ok m nb" "i < length (cells m nb)" "b \<noteq> nb"
  shows "benign T e \<and> heap m' = heap m"
  using assms
  by (auto simp: T_move_construct_def then_do_def may_throw_def construct_raw_def load_def
      assign_def slot_def put_def benign_def block_ok_def cells_def
      split: prod.splits sum.splits if_splits option.splits)

lemma T_move_construct_within_Inl:
  assumes "T_move_construct T (Ptr b i) (Ptr b j) m = (Inl e, m')"
    and "block_ok m b" "j < length (cells m b)" "cells m b ! j \<noteq> None"
    and "i < length (cells m b)" "i \<noteq> j"
  shows "benign T e \<and> heap m' = heap m"
  using assms
  by (auto simp: T_move_construct_def then_do_def may_throw_def construct_raw_def load_def
      assign_def slot_def put_def benign_def block_ok_def cells_def
      split: prod.splits sum.splits if_splits option.splits)

text \<open>
  A construction in an empty slot from arguments that stand for a live object fails only
  with an exception of the constructor, thrown before anything is written.
\<close>

lemma T_construct_Inl:
  assumes c: "T_construct T (Ptr nb i) args m = (Inl e, m')"
    and ok: "block_ok m nb" "i < length (cells m nb)"
    and empty: "cells m nb ! i = None" and alive: "args_alive args m"
  shows "benign T e \<and> heap m' = heap m"
proof (cases args)
  case (Args_outside f v)
  with c ok show ?thesis
    by (auto simp: T_construct_def then_do_def may_throw_def construct_raw_def slot_def benign_def
        block_ok_def cells_def split: prod.splits sum.splits if_splits option.splits)
next
  case (Lvalue_at q)
  with alive obtain v where "object_at m q = Some v"
    by (auto simp: args_alive_def arg_value_def)
  then obtain b j where q: "q = Ptr b j"
    and live: "block_ok m b" "j < length (cells m b)" "cells m b ! j \<noteq> None"
    by (cases q) (auto simp: object_at_Some)
  from c have "T_copy_construct T (Ptr nb i) (Ptr b j) m = (Inl e, m')"
    by (simp add: T_construct_def Lvalue_at q)
  from T_copy_construct_Inl [OF this live ok] show ?thesis .
next
  case (Rvalue_at q)
  with alive obtain v where "object_at m q = Some v"
    by (auto simp: args_alive_def arg_value_def)
  then obtain b j where q: "q = Ptr b j"
    and live: "block_ok m b" "j < length (cells m b)" "cells m b ! j \<noteq> None"
    by (cases q) (auto simp: object_at_Some)
  from c have mv: "T_move_construct T (Ptr nb i) (Ptr b j) m = (Inl e, m')"
    by (simp add: T_construct_def Rvalue_at q)
  show ?thesis
  proof (cases "b = nb")
    case False
    from T_move_construct_Inl [OF mv live ok False] show ?thesis .
  next
    case True
    with live(3) empty have "i \<noteq> j" by auto
    from T_move_construct_within_Inl [OF mv [unfolded True] live(1-3) [unfolded True] ok(2) this]
    show ?thesis .
  qed
qed

lemma destroy_n_succeeds:
  assumes "block_ok m b" "i + n \<le> length (cells m b)"
    "\<forall>k. i \<le> k \<and> k < i + n \<longrightarrow> cells m b ! k \<noteq> None"
  shows "\<exists>m'. destroy_n (Ptr b i) n m = (Inr (), m')"
  using assms
proof (induction n arbitrary: i m)
  case 0
  then show ?case by (simp add: return_def)
next
  case (Suc n)
  from Suc.prems have live: "slot m (Ptr b i) = Some (cells m b ! i)" "cells m b ! i \<noteq> None"
    by (auto simp: slot_Some)
  then obtain v where v: "cells m b ! i = Some v" by auto
  define m1 where "m1 = put (Ptr b i) None m"
  have d: "destroy_at (Ptr b i) m = (Inr (), m1)"
    using live v by (simp add: destroy_at_def m1_def)
  have h1: "heap m1 = (heap m)[b := (True, (cells m b)[i := None])]"
    using Suc.prems(1) by (simp add: m1_def heap_put block_ok_def)
  have c1: "cells m1 b = (cells m b)[i := None]" "block_ok m1 b"
    using Suc.prems(1) by (simp_all add: h1 cells_def block_ok_def)
  have "\<exists>m'. destroy_n (Ptr b (Suc i)) n m1 = (Inr (), m')"
  proof (rule Suc.IH)
    show "block_ok m1 b" by (rule c1)
    show "Suc i + n \<le> length (cells m1 b)" using Suc.prems(2) by (simp add: c1)
    show "\<forall>k. Suc i \<le> k \<and> k < Suc i + n \<longrightarrow> cells m1 b ! k \<noteq> None"
      using Suc.prems(3) by (auto simp: c1)
  qed
  then show ?case
    using d by (simp add: then_do_def)
qed

lemma loop_pre_step:
  assumes step: "heap m1 = (heap m)[nb := (True, (cells m nb)[i := Some v]), b := (True, (cells m b)[i := Some w])]"
    and ne: "b \<noteq> nb" and pre: "loop_pre b nb i (Suc n) m"
  shows "loop_pre b nb (Suc i) n m1"
proof -
  from pre have ok: "block_ok m b" "block_ok m nb" unfolding loop_pre_def by simp_all
  have c1: "cells m1 nb = (cells m nb)[i := Some v]" "cells m1 b = (cells m b)[i := Some w]"
    "block_ok m1 nb" "block_ok m1 b"
    using ok ne by (simp_all add: step cells_def block_ok_def)
  show ?thesis
    using pre unfolding loop_pre_def c1
    by (auto simp: c1 nth_list_update less_Suc_eq)
qed

lemma cleanup_rethrows:
  fixes m0 m' :: "'a mem"
  assumes h: "then_do (destroy_n (Ptr nb 0) i) (\<lambda>_. throw e0) m0 = (Inl e, m')"
    and heap: "heap m0 = heap m" and pre: "loop_pre b nb i n m"
  shows "e = e0"
proof -
  from pre heap have "block_ok m0 nb" "0 + i \<le> length (cells m0 nb)"
    "\<forall>k. 0 \<le> k \<and> k < 0 + i \<longrightarrow> cells m0 nb ! k \<noteq> None"
    by (auto simp: loop_pre_def block_ok_def cells_def)
  from destroy_n_succeeds [OF this] obtain m1 where "destroy_n (Ptr nb 0) i m0 = (Inr (), m1)"
    by blast
  with h show ?thesis
    by (simp add: then_do_def throw_def)
qed

lemma uninitialized_move_loop_Inl:
  assumes "uninitialized_move_loop T (Ptr b 0) (Ptr nb 0) i n m = (Inl e, m')"
    and "b \<noteq> nb" "loop_pre b nb i n m"
  shows "benign T e"
  using assms
proof (induction n arbitrary: i m)
  case 0
  then show ?case by (simp add: return_def)
next
  case (Suc n)
  from Suc.prems(3) have ok: "block_ok m b" "i < length (cells m b)" "cells m b ! i \<noteq> None"
    "block_ok m nb" "i < length (cells m nb)"
    by (auto simp: loop_pre_def)
  from Suc.prems(1) have "then_do (try_catch (T_move_construct T (Ptr nb i) (Ptr b i))
          (\<lambda>e. then_do (destroy_n (Ptr nb 0) i) (\<lambda>_. throw e)))
        (\<lambda>_. uninitialized_move_loop T (Ptr b 0) (Ptr nb 0) (Suc i) n) m = (Inl e, m')"
    by simp
  then show ?case
  proof (cases rule: then_do_Inl)
    case 1
    then show ?thesis
    proof (cases rule: try_catch_Inl)
      case (caught f m1)
      from T_move_construct_Inl [OF caught(1) ok Suc.prems(2)]
      have b: "benign T (Thrown f)" and h: "heap m1 = heap m" by simp_all
      from cleanup_rethrows [OF caught(2) h Suc.prems(3)] b show ?thesis by simp
    next
      case passed
      from T_move_construct_Inl [OF passed(1) ok Suc.prems(2)] show ?thesis by simp
    qed
  next
    case (2 x m1)
    from 2(1) have "T_move_construct T (Ptr nb i) (Ptr b i) m = (Inr (), m1)"
      by (auto dest: try_catch_rethrow_Inr)
    from T_move_construct_Inr [OF this Suc.prems(2)] obtain v where
      "heap m1 = (heap m)[nb := (True, (cells m nb)[i := Some v]),
                          b := (True, (cells m b)[i := Some (moved_from T v)])]"
      by blast
    from loop_pre_step [OF this Suc.prems(2,3)] have "loop_pre b nb (Suc i) n m1" .
    from Suc.IH [OF 2(2) Suc.prems(2) this] show ?thesis .
  qed
qed

lemma uninitialized_copy_loop_Inl:
  assumes "uninitialized_copy_loop T (Ptr b 0) (Ptr nb 0) i n m = (Inl e, m')"
    and "b \<noteq> nb" "loop_pre b nb i n m"
  shows "benign T e"
  using assms
proof (induction n arbitrary: i m)
  case 0
  then show ?case by (simp add: return_def)
next
  case (Suc n)
  from Suc.prems(3) have ok: "block_ok m b" "i < length (cells m b)" "cells m b ! i \<noteq> None"
    "block_ok m nb" "i < length (cells m nb)"
    by (auto simp: loop_pre_def)
  from Suc.prems(1) have "then_do (try_catch (T_copy_construct T (Ptr nb i) (Ptr b i))
          (\<lambda>e. then_do (destroy_n (Ptr nb 0) i) (\<lambda>_. throw e)))
        (\<lambda>_. uninitialized_copy_loop T (Ptr b 0) (Ptr nb 0) (Suc i) n) m = (Inl e, m')"
    by simp
  then show ?case
  proof (cases rule: then_do_Inl)
    case 1
    then show ?thesis
    proof (cases rule: try_catch_Inl)
      case (caught f m1)
      from T_copy_construct_Inl [OF caught(1) ok]
      have b: "benign T (Thrown f)" and h: "heap m1 = heap m" by simp_all
      from cleanup_rethrows [OF caught(2) h Suc.prems(3)] b show ?thesis by simp
    next
      case passed
      from T_copy_construct_Inl [OF passed(1) ok] show ?thesis by simp
    qed
  next
    case (2 x m1)
    from 2(1) have "T_copy_construct T (Ptr nb i) (Ptr b i) m = (Inr (), m1)"
      by (auto dest: try_catch_rethrow_Inr)
    from T_copy_construct_Inr [OF this] obtain v where
      v: "cells m b ! i = Some v"
      and h: "heap m1 = (heap m)[nb := (True, (cells m nb)[i := Some v])]"
      by blast
    from copied_block [OF ok(1) v Suc.prems(2)] h have "heap m1 =
        (heap m)[nb := (True, (cells m nb)[i := Some v]), b := (True, (cells m b)[i := Some v])]"
      by simp
    from loop_pre_step [OF this Suc.prems(2,3)] have "loop_pre b nb (Suc i) n m1" .
    from Suc.IH [OF 2(2) Suc.prems(2) this] show ?thesis .
  qed
qed

subsection \<open>How EmplaceBack can fail\<close>

lemma scoped_Inl:
  assumes "scoped l dtor body m = (Inl e, m')"
  obtains (at_exit) r l' m2 where "body m = (Inr (r, l'), m2)" "dtor l' m2 = (Inl e, m')"
  | (unwound) f m2 u where "body m = (Inl (Thrown f), m2)" "dtor l m2 = (Inr u, m')" "e = Thrown f"
  | (unwinding) f m2 where "body m = (Inl (Thrown f), m2)" "dtor l m2 = (Inl e, m')"
  | (aborted) "body m = (Inl e, m')"
  using assms
  by (auto simp: scoped_def then_do_def return_def throw_def
      split: prod.splits sum.splits error.splits)

lemma RawMemory_ctor_Inl:
  assumes "RawMemory_ctor T n m = (Inl e, m1)"
  shows "benign T e"
  using assms
  by (auto simp: RawMemory_ctor_def Allocate_def operator_new_def then_do_def may_throw_def
      return_def benign_def split: prod.splits sum.splits if_splits)

lemma RawMemory_dtor_succeeds:
  assumes "m_buffer d = Null \<or> (\<exists>b. m_buffer d = Ptr b 0 \<and> block_ok m b)"
  shows "\<exists>m'. RawMemory_dtor d m = (Inr (), m')"
  using assms
  by (auto simp: RawMemory_dtor_def Deallocate_def operator_delete_def block_ok_def)

lemma keeps_shape_RawMemory_plus [simp]: "keeps_shape (RawMemory_plus d n)"
  by (simp add: RawMemory_plus_def)

lemma relocation_pre:
  assumes inv: "vector_inv this me" and buf: "m_buffer (m_data this) = Ptr b 0"
    and nb: "length (heap me) = nb"
    and len: "length (heap m1a) = Suc nb"
    and new: "heap m1a ! nb = (True, xs)" "m_size this \<le> length xs"
    and old: "\<And>c. c < nb \<Longrightarrow> heap m1a ! c = heap me ! c"
  shows "loop_pre b nb 0 (m_size this) m1a"
proof -
  note i = inv_Ptr [OF inv buf]
  have b: "b < nb" using i(2) nb by (simp add: block_ok_def)
  show ?thesis
    using i b old [OF b] len new
    by (auto simp: loop_pre_def block_ok_def cells_def)
qed

lemma relocated_old_block:
  assumes rel: "relocated b nb 0 n m1a m1b" and pre: "loop_pre b nb 0 n m1a"
  shows "block_ok m1b b" "0 + n \<le> length (cells m1b b)"
    "\<forall>k. 0 \<le> k \<and> k < 0 + n \<longrightarrow> cells m1b b ! k \<noteq> None"
  using rel pre by (auto simp: relocated_def loop_pre_def block_ok_def)

lemma EmplaceBack_block_fails:
  fixes m m1 m2 :: "'a mem"
  assumes inv: "vector_inv this m" and alive: "args_alive args m"
    and h1: "heap m1 = heap m @ [(True, replicate cap None)]"
    and cap: "m_size this < cap"
    and nd: "new_data = \<lparr>m_buffer = Ptr (length (heap m)) 0, m_capacity = cap\<rparr>"
    and run: "then_do (RawMemory_plus new_data (m_size this)) (\<lambda>result.
               then_do (T_construct T result args) (\<lambda>_.
               then_do (InitOnConstruct T this new_data) (\<lambda>_.
               then_do (destroy_n (GetAddress (m_data this)) (m_size this)) (\<lambda>_.
               let (d, nd) = RawMemory_Swap (m_data this) new_data
               in return ((result, d), nd))))) m1 = (Inl e, m2)"
  shows "benign T e"
proof -
  define nb where "nb = length (heap m)"
  have plus: "RawMemory_plus new_data (m_size this) m1 = (Inr (Ptr nb (m_size this)), m1)"
    using cap by (simp add: RawMemory_plus_def nd return_def nb_def)
  have fresh: "block_ok m1 nb" "m_size this < length (cells m1 nb)"
    "cells m1 nb ! m_size this = None"
    using cap by (simp_all add: block_ok_def cells_def h1 nb_def)
  have alive1: "args_alive args m1"
    using alive arg_after_alloc(1) [OF h1 alive] by (simp add: args_alive_def)
  have inv_me: "vector_inv this (arg_effect T args m)"
    using inv by (rule arg_effect_inv)
  have nbl: "length (heap (arg_effect T args m)) = length (heap m)"
    by simp
  from run plus have "then_do (T_construct T (Ptr nb (m_size this)) args) (\<lambda>_.
               then_do (InitOnConstruct T this new_data) (\<lambda>_.
               then_do (destroy_n (GetAddress (m_data this)) (m_size this)) (\<lambda>_.
               return ((Ptr nb (m_size this), new_data), m_data this)))) m1 = (Inl e, m2)"
    by (simp add: then_do_def RawMemory_Swap_eq)
  then show ?thesis
  proof (cases rule: then_do_Inl)
    case 1
    from T_construct_Inl [OF 1 fresh alive1] show ?thesis by simp
  next
    case (2 u m1a)
    from 2(1) have cons: "T_construct T (Ptr (length (heap m)) (m_size this)) args m1 = (Inr (), m1a)"
      by (simp add: nb_def)
    note a = new_arena [OF h1 cap alive cons]
    from 2(2) show ?thesis
    proof (cases rule: then_do_Inl)
      case 1
      show ?thesis
      proof (cases "m_buffer (m_data this)")
        case Null
        from inv_Null [OF inv Null] 1 show ?thesis
          by (auto simp: InitOnConstruct_def uninitialized_move_n_def uninitialized_copy_n_def
              return_def split: if_splits)
      next
        case (Ptr b j)
        with inv_Ptr(1) [OF inv Ptr] have buf: "m_buffer (m_data this) = Ptr b 0" by simp
        from inv_Ptr(2) [OF inv buf] have ne: "b \<noteq> nb" by (simp add: block_ok_def nb_def)
        from relocation_pre [OF inv_me buf nbl a(1) a(2) _ a(3)] cap
        have pre: "loop_pre b nb 0 (m_size this) m1a" by (simp add: nb_def)
        from 1 show ?thesis
          by (auto simp: InitOnConstruct_def uninitialized_move_n_def uninitialized_copy_n_def
              GetAddress_def buf nd nb_def [symmetric] split: if_splits
              intro: uninitialized_move_loop_Inl [OF _ ne pre] uninitialized_copy_loop_Inl [OF _ ne pre])
      qed
    next
      case (2 w m1b)
      from 2(2) have d: "destroy_n (GetAddress (m_data this)) (m_size this) m1b = (Inl e, m2)"
        by (cases rule: then_do_Inl) (simp_all add: return_def)
      show ?thesis
      proof (cases "m_buffer (m_data this)")
        case Null
        from inv_Null [OF inv Null] d show ?thesis
          by (simp add: return_def)
      next
        case (Ptr b j)
        with inv_Ptr(1) [OF inv Ptr] have buf: "m_buffer (m_data this) = Ptr b 0" by simp
        from inv_Ptr(2) [OF inv buf] have ne: "b \<noteq> nb" by (simp add: block_ok_def nb_def)
        from relocation_pre [OF inv_me buf nbl a(1) a(2) _ a(3)] cap
        have pre: "loop_pre b nb 0 (m_size this) m1a" by (simp add: nb_def)
        from 2(1) have "InitOnConstruct T this \<lparr>m_buffer = Ptr nb 0, m_capacity = cap\<rparr> m1a = (Inr (), m1b)"
          by (simp add: nd nb_def)
        from InitOnConstruct_Inr [OF this buf ne]
        have rel: "relocated b nb 0 (m_size this) m1a m1b" .
        from destroy_n_succeeds [OF relocated_old_block [OF rel pre]] d
        show ?thesis
          by (auto simp: GetAddress_def buf)
      qed
    qed
  qed
qed

lemma EmplaceBack_fails:
  fixes m m' :: "'a mem"
  assumes inv: "vector_inv this m" and alive: "args_alive args m"
    and res: "EmplaceBack T args this m = (Inl e, this', m')"
  shows "this' = this \<and> benign T e"
proof (cases "m_size this = Capacity this")
  case False
  from res have this': "this' = this"
    by (auto simp: EmplaceBack_def split: if_splits prod.splits sum.splits)
  from inv False obtain b where buf: "m_buffer (m_data this) = Ptr b 0"
    by (cases "m_buffer (m_data this)")
       (auto simp: vector_inv_def Capacity_def RawMemory_Capacity_def)
  note i = inv_Ptr [OF inv buf]
  from False i have lt: "m_size this < m_capacity (m_data this)"
    by (simp add: Capacity_def RawMemory_Capacity_def)
  from res False have "then_do (RawMemory_plus (m_data this) (m_size this)) (\<lambda>result.
             then_do (T_construct T result args) (\<lambda>_. return result)) m = (Inl e, m')"
    by (auto simp: EmplaceBack_def split: prod.splits sum.splits)
  with lt buf have "then_do (T_construct T (Ptr b (m_size this)) args)
      (\<lambda>_. return (Ptr b (m_size this))) m = (Inl e, m')"
    by (simp add: RawMemory_plus_def return_def then_do_def)
  then have "T_construct T (Ptr b (m_size this)) args m = (Inl e, m')"
    by (cases rule: then_do_Inl) (simp_all add: return_def)
  moreover have "m_size this < length (cells m b)" "cells m b ! m_size this = None"
    using lt i(3) i(7) [of "m_size this"] by simp_all
  ultimately have "benign T e \<and> heap m' = heap m"
    using i(2) alive by (intro T_construct_Inl)
  with this' show ?thesis by simp
next
  case True
  define cap where "cap = (if m_size this = 0 then 1 else m_size this * 2)"
  define nb where "nb = length (heap m)"
  have cap: "cap \<noteq> 0" "m_size this < cap"
    by (auto simp: cap_def)
  have inv_me: "vector_inv this (arg_effect T args m)"
    using inv by (rule arg_effect_inv)
  have nbl: "length (heap (arg_effect T args m)) = length (heap m)"
    by simp
  from res have this': "this' = this"
    by (auto simp: EmplaceBack_def split: if_splits prod.splits sum.splits)
  let ?block = "\<lambda>new_data.
               then_do (RawMemory_plus new_data (m_size this)) (\<lambda>result.
               then_do (T_construct T result args) (\<lambda>_.
               then_do (InitOnConstruct T this new_data) (\<lambda>_.
               then_do (destroy_n (GetAddress (m_data this)) (m_size this)) (\<lambda>_.
               let (d, nd) = RawMemory_Swap (m_data this) new_data
               in return ((result, d), nd)))))"
  have shape: "keeps_shape (?block new_data)" for new_data
    by (auto intro!: keeps_shape_then_do simp: RawMemory_Swap_eq)
  from res True have "then_do (RawMemory_ctor T cap) (\<lambda>new_data.
      scoped new_data RawMemory_dtor (?block new_data)) m = (Inl e, m')"
    unfolding cap_def by (auto simp: EmplaceBack_def split: prod.splits sum.splits)
  then have "benign T e"
  proof (cases rule: then_do_Inl)
    case 1
    then show ?thesis by (rule RawMemory_ctor_Inl)
  next
    case (2 new_data m1)
    from RawMemory_ctor_Inr [OF 2(1) cap(1)]
    have nd: "new_data = \<lparr>m_buffer = Ptr (length (heap m)) 0, m_capacity = cap\<rparr>"
      and h1: "heap m1 = heap m @ [(True, replicate cap None)]"
      by simp_all
    have fresh: "block_ok m1 (length (heap m))"
      by (simp add: block_ok_def h1)
    from 2(2) show ?thesis
    proof (cases rule: scoped_Inl)
      case (at_exit r l' m2)
      from at_exit(1) obtain m1a m1b where
        cons: "T_construct T (Ptr (length (heap m)) (m_size this)) args m1 = (Inr (), m1a)"
        and init: "InitOnConstruct T this new_data m1a = (Inr (), m1b)"
        and dest: "destroy_n (GetAddress (m_data this)) (m_size this) m1b = (Inr (), m2)"
        and l': "l' = m_data this"
        using cap(2)
        by (auto elim!: then_do_Inr
            simp: return_def RawMemory_Swap_eq RawMemory_plus_def nd split: if_splits)
      have "\<exists>m'. RawMemory_dtor l' m2 = (Inr (), m')"
      proof (cases "m_buffer (m_data this)")
        case Null
        then show ?thesis
          by (intro RawMemory_dtor_succeeds) (simp add: l')
      next
        case (Ptr b j)
        with inv_Ptr(1) [OF inv Ptr] have buf: "m_buffer (m_data this) = Ptr b 0" by simp
        from inv_Ptr(2) [OF inv buf] have ne: "b \<noteq> length (heap m)" by (simp add: block_ok_def)
        note a = new_arena [OF h1 cap(2) alive cons]
        from relocation_pre [OF inv_me buf nbl a(1) a(2) _ a(3)] cap
        have pre: "loop_pre b (length (heap m)) 0 (m_size this) m1a" by simp
        from InitOnConstruct_Inr [OF init [unfolded nd] buf ne]
        have rel: "relocated b (length (heap m)) 0 (m_size this) m1a m1b" .
        have "block_ok m1b b"
          using relocated_old_block(1) [OF rel pre] .
        moreover have "same_shape m1b m2"
          using keeps_shapeD [OF keeps_shape_destroy_n dest] .
        ultimately have "block_ok m2 b"
          by (simp add: same_shape_block_ok)
        then show ?thesis
          by (intro RawMemory_dtor_succeeds) (simp add: l' buf)
      qed
      with at_exit(2) show ?thesis by auto
    next
      case (unwound f m2 u)
      from EmplaceBack_block_fails [OF inv alive h1 cap(2) nd unwound(1)] unwound(3)
      show ?thesis by simp
    next
      case (unwinding f m2)
      have "same_shape m1 m2"
        using keeps_shapeD [OF shape unwinding(1)] .
      with fresh have "block_ok m2 (length (heap m))"
        by (simp add: same_shape_block_ok)
      then have "\<exists>m'. RawMemory_dtor new_data m2 = (Inr (), m')"
        by (intro RawMemory_dtor_succeeds) (simp add: nd)
      with unwinding(2) show ?thesis by auto
    next
      case aborted
      from EmplaceBack_block_fails [OF inv alive h1 cap(2) nd aborted] show ?thesis .
    qed
  qed
  with this' show ?thesis by simp
qed

subsection \<open>The result\<close>

lemma EmplaceBack_returns:
  assumes inv: "vector_inv this m" and alive: "args_alive args m"
    and res: "EmplaceBack T args this m = (Inr result, this', m')"
  shows "Size this' = Size this + 1 \<and>
     contents this' m' = contents this (arg_effect T args m) @ [arg_value args m] \<and>
     Capacity this' =
       (if Size this = Capacity this then (if Capacity this = 0 then 1 else 2 * Capacity this)
        else Capacity this) \<and>
     result = ptr_add (Vector_begin this') (Size this) \<and>
     vector_inv this' m' \<and>
     PushBack T args this m = (Inr (), this', m')"
proof (cases "m_size this = Capacity this")
  case True
  from EmplaceBack_reallocating [OF inv alive True res] True res show ?thesis
    by (auto simp: Size_def Capacity_def RawMemory_Capacity_def Vector_begin_def GetAddress_def
        PushBack_def)
next
  case False
  from EmplaceBack_in_place [OF inv False res] False res show ?thesis
    by (auto simp: Size_def Capacity_def RawMemory_Capacity_def Vector_begin_def GetAddress_def
        PushBack_def)
qed

text \<open>
  Claim C5. From a vector that satisfies the invariant, and with arguments that stand for a
  live object when they refer to the memory (arguments outside the memory always do),
  \<open>EmplaceBack\<close> (and \<open>PushBack\<close>, which calls
  it) either returns or ends with an exception that the element type or the allocation
  function throws, the members of the vector being then as they were. When it returns it has
  added one element at the end: the size is one more, the element sequence is the old one
  followed by the new value, and the reference returned is the address of the last element.
  The old sequence is read after the construction of the new element: it is the sequence
  before the call (so for arguments outside the memory, and for an lvalue), but for an
  element that the arguments hand over as an rvalue, which is left moved from. When the
  vector was full the capacity is twice the old one, or 1 when it was 0; otherwise it is
  unchanged. The invariant holds again. The witness is the run of the specification: from
  the empty vector three calls give the capacities 1, 2, 4 and the sequence \<open>[1, 2, 3]\<close>;
  and \<^verbatim>\<open>v.PushBack(std::move(v[0]))\<close> on the full vector \<open>[a, b, c]\<close>, which gives
  \<open>["", b, c, a]\<close> with capacity 6.
\<close>

theorem EmplaceBack_appends:
  assumes inv: "vector_inv this m" and alive: "args_alive args m"
  shows "case EmplaceBack T args this m of
      (Inr result, this', m') \<Rightarrow>
        Size this' = Size this + 1 \<and>
        contents this' m' = contents this (arg_effect T args m) @ [arg_value args m] \<and>
        (\<forall>f v. args = Args_outside f v \<longrightarrow> contents this' m' = contents this m @ [Some v]) \<and>
        (\<forall>q. args = Lvalue_at q \<longrightarrow> contents this' m' = contents this m @ [object_at m q]) \<and>
        Capacity this' =
          (if Size this = Capacity this then (if Capacity this = 0 then 1 else 2 * Capacity this)
           else Capacity this) \<and>
        result = ptr_add (Vector_begin this') (Size this) \<and>
        vector_inv this' m' \<and>
        PushBack T args this m = (Inr (), this', m')
    | (Inl e, this', m') \<Rightarrow> this' = this \<and> (\<exists>f k. e = Thrown f \<and> throws T f k)"
proof (cases "EmplaceBack T args this m")
  case (fields r this' m')
  show ?thesis
  proof (cases r)
    case (Inl e)
    with fields EmplaceBack_fails [OF inv alive, of T e this' m'] show ?thesis
      by (simp add: benign_def)
  next
    case (Inr result)
    from fields Inr have res: "EmplaceBack T args this m = (Inr result, this', m')"
      by simp
    note t = EmplaceBack_returns [OF inv alive res]
    have "contents this' m' = contents this m @ [Some v]" if "args = Args_outside f v" for f v
      using t that by simp
    moreover have "contents this' m' = contents this m @ [object_at m q]" if "args = Lvalue_at q" for q
      using t that by (simp add: arg_effect_def arg_value_def)
    ultimately show ?thesis
      using t res by simp
  qed
qed

theorem EmplaceBack_appends_witness:
  "EmplaceBack T_nat (Args_outside Construct 1) Vector_default \<lparr>heap = [], tick = 0\<rparr> =
     (Inr (Ptr 0 0), \<lparr>m_data = \<lparr>m_buffer = Ptr 0 0, m_capacity = 1\<rparr>, m_size = 1\<rparr>,
      \<lparr>heap = [(True, [Some 1])], tick = 2\<rparr>) \<and>
   EmplaceBack T_nat (Args_outside Construct 2)
       \<lparr>m_data = \<lparr>m_buffer = Ptr 0 0, m_capacity = 1\<rparr>, m_size = 1\<rparr>
       \<lparr>heap = [(True, [Some 1])], tick = 2\<rparr> =
     (Inr (Ptr 1 1), \<lparr>m_data = \<lparr>m_buffer = Ptr 1 0, m_capacity = 2\<rparr>, m_size = 2\<rparr>,
      \<lparr>heap = [(False, [None]), (True, [Some 1, Some 2])], tick = 5\<rparr>) \<and>
   vector_inv \<lparr>m_data = \<lparr>m_buffer = Ptr 1 0, m_capacity = 2\<rparr>, m_size = 2\<rparr>
      \<lparr>heap = [(False, [None]), (True, [Some (1::nat), Some 2])], tick = 5\<rparr> \<and>
   args_alive (Args_outside Construct (3::nat))
      \<lparr>heap = [(False, [None]), (True, [Some (1::nat), Some 2])], tick = 5\<rparr> \<and>
   EmplaceBack T_nat (Args_outside Construct 3)
       \<lparr>m_data = \<lparr>m_buffer = Ptr 1 0, m_capacity = 2\<rparr>, m_size = 2\<rparr>
       \<lparr>heap = [(False, [None]), (True, [Some 1, Some 2])], tick = 5\<rparr> =
     (Inr (Ptr 2 2), \<lparr>m_data = \<lparr>m_buffer = Ptr 2 0, m_capacity = 4\<rparr>, m_size = 3\<rparr>,
      \<lparr>heap = [(False, [None]), (False, [None, None]), (True, [Some 1, Some 2, Some 3, None])],
       tick = 9\<rparr>) \<and>
   Capacity \<lparr>m_data = \<lparr>m_buffer = Ptr 2 0, m_capacity = 4\<rparr>, m_size = 3\<rparr> = 4 \<and>
   Size \<lparr>m_data = \<lparr>m_buffer = Ptr 2 0, m_capacity = 4\<rparr>, m_size = 3\<rparr> = 3 \<and>
   contents \<lparr>m_data = \<lparr>m_buffer = Ptr 2 0, m_capacity = 4\<rparr>, m_size = 3\<rparr>
      \<lparr>heap = [(False, [None]), (False, [None, None]), (True, [Some (1::nat), Some 2, Some 3, None])],
       tick = 9\<rparr> = [Some 1, Some 2, Some 3] \<and>
   vector_inv ex_svec ex_smem \<and> args_alive (Rvalue_at (Ptr 0 0)) ex_smem \<and>
   EmplaceBack T_string (Rvalue_at (Ptr 0 0)) ex_svec ex_smem =
     (Inr (Ptr 1 3), \<lparr>m_data = \<lparr>m_buffer = Ptr 1 0, m_capacity = 6\<rparr>, m_size = 4\<rparr>,
      \<lparr>heap = [(False, [None, None, None]),
               (True, [Some '''', Some ''b'', Some ''c'', Some ''a'', None, None])], tick = 5\<rparr>) \<and>
   contents \<lparr>m_data = \<lparr>m_buffer = Ptr 1 0, m_capacity = 6\<rparr>, m_size = 4\<rparr>
      \<lparr>heap = [(False, [None, None, None]),
               (True, [Some '''', Some ''b'', Some ''c'', Some ''a'', None, None])], tick = 5\<rparr> =
     contents ex_svec (arg_effect T_string (Rvalue_at (Ptr 0 0)) ex_smem) @ [Some ''a''] \<and>
   contents ex_svec (arg_effect T_string (Rvalue_at (Ptr 0 0)) ex_smem) =
     [Some '''', Some ''b'', Some ''c'']"
proof -
  have e1: "EmplaceBack T_nat (Args_outside Construct 1) Vector_default \<lparr>heap = [], tick = 0\<rparr> =
     (Inr (Ptr 0 0), \<lparr>m_data = \<lparr>m_buffer = Ptr 0 0, m_capacity = 1\<rparr>, m_size = 1\<rparr>,
      \<lparr>heap = [(True, [Some 1])], tick = 2\<rparr>)"
    by code_simp
  have e2: "EmplaceBack T_nat (Args_outside Construct 2)
       \<lparr>m_data = \<lparr>m_buffer = Ptr 0 0, m_capacity = 1\<rparr>, m_size = 1\<rparr>
       \<lparr>heap = [(True, [Some 1])], tick = 2\<rparr> =
     (Inr (Ptr 1 1), \<lparr>m_data = \<lparr>m_buffer = Ptr 1 0, m_capacity = 2\<rparr>, m_size = 2\<rparr>,
      \<lparr>heap = [(False, [None]), (True, [Some 1, Some 2])], tick = 5\<rparr>)"
    by code_simp
  have i2: "vector_inv \<lparr>m_data = \<lparr>m_buffer = Ptr 1 0, m_capacity = 2\<rparr>, m_size = 2\<rparr>
      \<lparr>heap = [(False, [None]), (True, [Some (1::nat), Some 2])], tick = 5\<rparr>"
    by code_simp
  have a2: "args_alive (Args_outside Construct (3::nat))
      \<lparr>heap = [(False, [None]), (True, [Some (1::nat), Some 2])], tick = 5\<rparr>"
    by code_simp
  have e3: "EmplaceBack T_nat (Args_outside Construct 3)
       \<lparr>m_data = \<lparr>m_buffer = Ptr 1 0, m_capacity = 2\<rparr>, m_size = 2\<rparr>
       \<lparr>heap = [(False, [None]), (True, [Some 1, Some 2])], tick = 5\<rparr> =
     (Inr (Ptr 2 2), \<lparr>m_data = \<lparr>m_buffer = Ptr 2 0, m_capacity = 4\<rparr>, m_size = 3\<rparr>,
      \<lparr>heap = [(False, [None]), (False, [None, None]), (True, [Some 1, Some 2, Some 3, None])],
       tick = 9\<rparr>)"
    by code_simp
  have c2: "contents \<lparr>m_data = \<lparr>m_buffer = Ptr 1 0, m_capacity = 2\<rparr>, m_size = 2\<rparr>
      \<lparr>heap = [(False, [None]), (True, [Some (1::nat), Some 2])], tick = 5\<rparr> = [Some 1, Some 2]"
    by code_simp
  have s2: "Size \<lparr>m_data = \<lparr>m_buffer = Ptr 1 0, m_capacity = 2\<rparr>, m_size = 2\<rparr> = 2"
    "Capacity \<lparr>m_data = \<lparr>m_buffer = Ptr 1 0, m_capacity = 2\<rparr>, m_size = 2\<rparr> = 2"
    by (simp_all add: Size_def Capacity_def RawMemory_Capacity_def)
  have k3: "Capacity \<lparr>m_data = \<lparr>m_buffer = Ptr 2 0, m_capacity = 4\<rparr>, m_size = 3\<rparr> = 4 \<and>
   Size \<lparr>m_data = \<lparr>m_buffer = Ptr 2 0, m_capacity = 4\<rparr>, m_size = 3\<rparr> = 3 \<and>
   contents \<lparr>m_data = \<lparr>m_buffer = Ptr 2 0, m_capacity = 4\<rparr>, m_size = 3\<rparr>
      \<lparr>heap = [(False, [None]), (False, [None, None]), (True, [Some (1::nat), Some 2, Some 3, None])],
       tick = 9\<rparr> = [Some 1, Some 2, Some 3]"
    using EmplaceBack_appends [OF i2 a2, of T_nat] e3 c2 s2 by simp
  have i3: "vector_inv ex_svec ex_smem" by code_simp
  have a3: "args_alive (Rvalue_at (Ptr 0 0)) ex_smem" by code_simp
  have e4: "EmplaceBack T_string (Rvalue_at (Ptr 0 0)) ex_svec ex_smem =
     (Inr (Ptr 1 3), \<lparr>m_data = \<lparr>m_buffer = Ptr 1 0, m_capacity = 6\<rparr>, m_size = 4\<rparr>,
      \<lparr>heap = [(False, [None, None, None]),
               (True, [Some '''', Some ''b'', Some ''c'', Some ''a'', None, None])], tick = 5\<rparr>)"
    by code_simp
  have v4: "arg_value (Rvalue_at (Ptr 0 0)) ex_smem = Some ''a''" by code_simp
  have c4: "contents ex_svec (arg_effect T_string (Rvalue_at (Ptr 0 0)) ex_smem) =
     [Some '''', Some ''b'', Some ''c'']"
    by code_simp
  have k4: "contents \<lparr>m_data = \<lparr>m_buffer = Ptr 1 0, m_capacity = 6\<rparr>, m_size = 4\<rparr>
      \<lparr>heap = [(False, [None, None, None]),
               (True, [Some '''', Some ''b'', Some ''c'', Some ''a'', None, None])], tick = 5\<rparr> =
     contents ex_svec (arg_effect T_string (Rvalue_at (Ptr 0 0)) ex_smem) @ [Some ''a'']"
    using EmplaceBack_appends [OF i3 a3, of T_string] e4 v4 by simp
  from e1 e2 i2 a2 e3 k3 i3 a3 e4 k4 c4 show ?thesis
    by (intro conjI) (elim conjE, assumption)+
qed

end
